theory Spec2Isabelle
  imports Complex_Main "HOL-Library.Word" "HOL-Library.Monad_Syntax"
begin

unbundle bit_operations_syntax

section \<open>Data model of the finite element space (fem/fespace.cpp)\<close>

text \<open>
  The C++ \<^verbatim>\<open>int\<close> is a 32-bit two's complement integer. Where a claim is about the
  signed encoding itself it is modelled as \<^typ>\<open>32 word\<close> with the signed comparison
  \<open><s\<close>; index arithmetic that stays far from the limits is modelled over \<^typ>\<open>int\<close>.
  A failed \<^verbatim>\<open>MFEM_ABORT\<close>/\<^verbatim>\<open>MFEM_VERIFY\<close> is the error \<open>Abort\<close>; an array
  access outside the bounds (the bounds check of \<^verbatim>\<open>Array::operator[]\<close>) is \<open>OutOfRange\<close>.
\<close>

datatype error = Abort | OutOfRange

datatype Ordering = byNODES | byVDIM

text \<open>The reference geometries (\<^verbatim>\<open>Geometry::Type\<close>).\<close>

datatype Geometry = INVALID | POINT | SEGMENT | TRIANGLE | SQUARE | TETRAHEDRON | CUBE | PRISM

text \<open>
  \<^verbatim>\<open>Table\<close>: the row offsets \<open>I\<close> and the concatenated rows \<open>J\<close>.
\<close>

record Table =
  tI :: "int list"
  tJ :: "int list"

text \<open>
  A sparse matrix held row by row: row \<open>i\<close> is the list of its (column, value) entries.
\<close>

type_synonym SparseRow = "(nat \<times> real) list"

record SparseMatrix =
  Width :: nat
  Rows :: "SparseRow list"

text \<open>
  The members of \<^verbatim>\<open>FiniteElementSpace\<close> that the functions below read or write, in the
  order of the constructor's initialiser list. The mesh and the finite element
  collection are other classes; what the functions need of them is passed as arguments.
\<close>

record FiniteElementSpace =
  vdim :: int
  ordering :: Ordering
  ndofs :: int
  nvdofs :: int
  nedofs :: int
  nfdofs :: int
  nbdofs :: int
  bdofs :: "int list option"
  elem_dof :: "Table option"
  bdr_elem_dof :: "Table option"
  face_dof :: "Table option"
  NURBSext :: bool
  cP :: "SparseMatrix option"
  cR :: "SparseMatrix option"
  cQ :: "SparseMatrix option"
  cP_is_set :: bool
  var_edge_dofs :: Table
  var_face_dofs :: Table
  ndof_to_geom_order :: "(Geometry \<times> (int \<times> int) list) list"
  elem_order :: "int list"
  sequence :: int
  orders_changed :: bool
  relaxed_hp :: bool

text \<open>The state the default constructor builds (lines 61-68).\<close>

definition FiniteElementSpace_default :: FiniteElementSpace where
  "FiniteElementSpace_default =
     \<lparr> vdim = 0, ordering = byNODES,
       ndofs = 0, nvdofs = 0, nedofs = 0, nfdofs = 0, nbdofs = 0, bdofs = None,
       elem_dof = None, bdr_elem_dof = None, face_dof = None,
       NURBSext = False,
       cP = None, cR = None, cQ = None, cP_is_set = False,
       var_edge_dofs = \<lparr> tI = [], tJ = [] \<rparr>, var_face_dofs = \<lparr> tI = [], tJ = [] \<rparr>,
       ndof_to_geom_order = [], elem_order = [],
       sequence = 0, orders_changed = False, relaxed_hp = False \<rparr>"

section \<open>Signed DOF encoding\<close>

text \<open>
  \<^verbatim>\<open>ReorderElementToDofTable\<close> (lines 363-370) decodes a signed DOF with
  \<^verbatim>\<open>(sdof < 0) ? -1-sdof : sdof\<close> and writes the flipped encoding of a DOF \<open>d\<close> as
  \<^verbatim>\<open>-1-d\<close>.
\<close>

definition decode_dof :: "32 word \<Rightarrow> 32 word" where
  "decode_dof sdof = (if sdof <s 0 then - 1 - sdof else sdof)"

definition encode_flip :: "32 word \<Rightarrow> 32 word" where
  "encode_flip d = - 1 - d"

text \<open>
  \<^verbatim>\<open>AdjustVDofs\<close> (lines 221-232): every negative entry \<open>j\<close> of the array is replaced
  by \<^verbatim>\<open>-1-j\<close>.
\<close>

fun AdjustVDofs :: "32 word list \<Rightarrow> 32 word list" where
  "AdjustVDofs [] = []"
| "AdjustVDofs (j # vdof) = (if j <s 0 then - 1 - j else j) # AdjustVDofs vdof"

section \<open>Component mapping\<close>

text \<open>
  Modelled from the spec: \<^verbatim>\<open>Ordering::Map\<close> is declared in the header of the class, which
  is not among the sources. The spec names the two conventions: node-major ordering
  groups the DOFs of one component together (component \<open>vd\<close> of DOF \<open>dof\<close> is at
  \<open>dof + vd * ndofs\<close>), component-major ordering interleaves the components of one DOF
  (\<open>dof * vdim + vd\<close>).
\<close>

fun Ordering_Map :: "Ordering \<Rightarrow> int \<Rightarrow> int \<Rightarrow> int \<Rightarrow> int \<Rightarrow> int" where
  "Ordering_Map byNODES nd vdm dof vd = dof + vd * nd"
| "Ordering_Map byVDIM nd vdm dof vd = dof * vdm + vd"

text \<open>
  \<^verbatim>\<open>DofToVDof\<close> (lines 205-218). The first argument stands for \<^verbatim>\<open>Ordering::Map\<close>; the
  last one is the optional \<^verbatim>\<open>ndofs\<close> argument, negative when the space's own count is
  to be used.
\<close>

definition DofToVDof ::
  "(Ordering \<Rightarrow> int \<Rightarrow> int \<Rightarrow> int \<Rightarrow> int \<Rightarrow> int) \<Rightarrow> FiniteElementSpace \<Rightarrow> int \<Rightarrow> int \<Rightarrow> int \<Rightarrow> int" where
  "DofToVDof Map fes dof vd ndofs_arg =
     (if vdim fes = 1 then dof
      else let nd = (if ndofs_arg < 0 then ndofs fes else ndofs_arg) in
        if ordering fes = byNODES then Map byNODES nd (vdim fes) dof vd
        else Map byVDIM nd (vdim fes) dof vd)"

section \<open>Marker arrays and index lists\<close>

text \<open>
  \<^verbatim>\<open>MarkerToList\<close> (lines 496-512): the second loop appends every index whose entry is
  nonzero, in increasing order. (The first loop only counts them to reserve storage.)
\<close>

definition MarkerToList :: "int list \<Rightarrow> int list" where
  "MarkerToList marker = [int i. i \<leftarrow> [0..<length marker], marker ! i \<noteq> 0]"

text \<open>
  \<^verbatim>\<open>ListToMarker\<close> (lines 515-526): the marker gets \<open>marker_size\<close> zero entries, then the
  loop writes \<open>mark_val\<close> at every listed index. An index outside the marker is an
  access outside the array.
\<close>

fun ListToMarker_loop :: "int list \<Rightarrow> int \<Rightarrow> int list \<Rightarrow> error + int list" where
  "ListToMarker_loop [] mark_val marker = Inr marker"
| "ListToMarker_loop (k # list) mark_val marker =
     (if 0 \<le> k \<and> k < int (length marker)
      then ListToMarker_loop list mark_val (marker[nat k := mark_val])
      else Inl OutOfRange)"

definition ListToMarker :: "int list \<Rightarrow> int \<Rightarrow> int \<Rightarrow> error + int list" where
  "ListToMarker list marker_size mark_val =
     (if marker_size < 0 then Inl OutOfRange
      else ListToMarker_loop list mark_val (replicate (nat marker_size) 0))"

section \<open>Collecting dependencies\<close>

text \<open>
  \<^verbatim>\<open>AddDependencies\<close> (lines 655-678). \<^verbatim>\<open>SparseMatrix\<close> and \<^verbatim>\<open>DenseMatrix\<close> are classes
  of the linear algebra library: the two operations the function calls on \<open>deps\<close>,
  \<^verbatim>\<open>RowSize\<close> and \<^verbatim>\<open>Add\<close>, are arguments of the model, and the dense matrix \<open>I\<close> is the
  function giving its entries. The arrays are lists; the loop counters \<open>i\<close> and \<open>j\<close> stay
  inside them. \<open>skipfirst\<close> is never negative at the call sites (0, 2, or a product of
  counts). The threshold \<^verbatim>\<open>1e-12\<close> is compared over the reals.

  The body of the inner loop, for the master column \<open>j\<close>:
\<close>

definition AddDependencies_master ::
  "('m \<Rightarrow> int \<Rightarrow> int \<Rightarrow> real \<Rightarrow> 'm) \<Rightarrow> int list \<Rightarrow> int \<Rightarrow> (nat \<Rightarrow> real) \<Rightarrow> 'm \<Rightarrow> nat \<Rightarrow> 'm" where
  "AddDependencies_master Add master_dofs sdof Ii deps j =
     (let coef = Ii j in
      if \<bar>coef\<bar> > 1 / 10 ^ 12 then
        (let mdof = master_dofs ! j in
         if mdof \<noteq> sdof \<and> mdof \<noteq> - 1 - sdof then Add deps sdof mdof coef else deps)
      else deps)"

text \<open>The body of the outer loop, for the slave row \<open>i\<close>:\<close>

definition AddDependencies_slave ::
  "('m \<Rightarrow> int \<Rightarrow> int) \<Rightarrow> ('m \<Rightarrow> int \<Rightarrow> int \<Rightarrow> real \<Rightarrow> 'm) \<Rightarrow>
   int list \<Rightarrow> int list \<Rightarrow> (nat \<Rightarrow> nat \<Rightarrow> real) \<Rightarrow> 'm \<Rightarrow> nat \<Rightarrow> 'm" where
  "AddDependencies_slave RowSize Add master_dofs slave_dofs I deps i =
     (let sdof = slave_dofs ! i in
      if RowSize deps sdof = 0
      then foldl (AddDependencies_master Add master_dofs sdof (I i)) deps [0..<length master_dofs]
      else deps)"

definition AddDependencies ::
  "('m \<Rightarrow> int \<Rightarrow> int) \<Rightarrow> ('m \<Rightarrow> int \<Rightarrow> int \<Rightarrow> real \<Rightarrow> 'm) \<Rightarrow>
   'm \<Rightarrow> int list \<Rightarrow> int list \<Rightarrow> (nat \<Rightarrow> nat \<Rightarrow> real) \<Rightarrow> nat \<Rightarrow> 'm" where
  "AddDependencies RowSize Add deps master_dofs slave_dofs I skipfirst =
     foldl (AddDependencies_slave RowSize Add master_dofs slave_dofs I) deps
       [skipfirst..<length slave_dofs]"

text \<open>
  A sequence of \<^verbatim>\<open>Add\<close> calls, each given as (row, column, value), applied in order.
\<close>

definition apply_Adds ::
  "('m \<Rightarrow> int \<Rightarrow> int \<Rightarrow> real \<Rightarrow> 'm) \<Rightarrow> 'm \<Rightarrow> (int \<times> int \<times> real) list \<Rightarrow> 'm" where
  "apply_Adds Add deps entries = foldl (\<lambda>A e. Add A (fst e) (fst (snd e)) (snd (snd e))) deps entries"

text \<open>
  The condition under which the inner loop records column \<open>j\<close> for the slave DOF
  \<open>sdof\<close>, and the entries one slave row records when its row of \<open>deps\<close> is empty.
\<close>

definition recordable :: "int list \<Rightarrow> int \<Rightarrow> (nat \<Rightarrow> real) \<Rightarrow> nat \<Rightarrow> bool" where
  "recordable master_dofs sdof Ii j \<longleftrightarrow>
     \<bar>Ii j\<bar> > 1 / 10 ^ 12 \<and> master_dofs ! j \<noteq> sdof \<and> master_dofs ! j \<noteq> - 1 - sdof"

definition row_entries ::
  "('m \<Rightarrow> int \<Rightarrow> int) \<Rightarrow> 'm \<Rightarrow> int list \<Rightarrow> int list \<Rightarrow> (nat \<Rightarrow> nat \<Rightarrow> real) \<Rightarrow> nat \<Rightarrow>
   (int \<times> int \<times> real) list" where
  "row_entries RowSize d master_dofs slave_dofs I i =
     (if RowSize d (slave_dofs ! i) = 0
      then map (\<lambda>j. (slave_dofs ! i, master_dofs ! j, I i j))
             (filter (recordable master_dofs (slave_dofs ! i) (I i)) [0..<length master_dofs])
      else [])"

text \<open>
  The simplest sparse matrix to run the function on: the list of the entries added
  so far, the size of a row being the number of its entries.
\<close>

definition triplet_RowSize :: "(int \<times> int \<times> real) list \<Rightarrow> int \<Rightarrow> int" where
  "triplet_RowSize A i = int (length (filter (\<lambda>e. fst e = i) A))"

definition triplet_Add :: "(int \<times> int \<times> real) list \<Rightarrow> int \<Rightarrow> int \<Rightarrow> real \<Rightarrow> (int \<times> int \<times> real) list" where
  "triplet_Add A i j v = A @ [(i, j, v)]"

definition example_I :: "nat \<Rightarrow> nat \<Rightarrow> real" where
  "example_I i j = (if j = 1 then 1 / 10 ^ 13 else if i = 1 then 1 else 1 / 2)"

section \<open>Conforming interpolation\<close>

text \<open>
  Modelled from the spec: the sparse matrix class belongs to the linear algebra library,
  which is outside the sources. The spec describes a dependency row as a sparse weighted
  list of (master DOF, coefficient) pairs, empty for a true DOF. A matrix is its list of
  rows; \<^verbatim>\<open>Add\<close> accumulates into an entry of the row or appends a new one, \<^verbatim>\<open>AddRow\<close> adds a
  list of entries to one row, \<^verbatim>\<open>SetRow\<close> replaces a row, \<^verbatim>\<open>GetRowColumns\<close> and
  \<^verbatim>\<open>GetRowEntries\<close> read the columns and the values of a row. Changing the storage format
  (\<^verbatim>\<open>Finalize\<close>, \<^verbatim>\<open>BuildTranspose\<close>) does not change the rows and is left out.
\<close>

definition new_SparseMatrix :: "nat \<Rightarrow> nat \<Rightarrow> SparseMatrix" where
  "new_SparseMatrix h w = \<lparr> Width = w, Rows = replicate h [] \<rparr>"

definition SparseMatrix_RowSize :: "SparseMatrix \<Rightarrow> nat \<Rightarrow> nat" where
  "SparseMatrix_RowSize A i = length (Rows A ! i)"

definition SparseMatrix_GetRowColumns :: "SparseMatrix \<Rightarrow> nat \<Rightarrow> nat list" where
  "SparseMatrix_GetRowColumns A i = map fst (Rows A ! i)"

definition SparseMatrix_GetRowEntries :: "SparseMatrix \<Rightarrow> nat \<Rightarrow> real list" where
  "SparseMatrix_GetRowEntries A i = map snd (Rows A ! i)"

fun add_entry :: "SparseRow \<Rightarrow> nat \<Rightarrow> real \<Rightarrow> SparseRow" where
  "add_entry [] j v = [(j, v)]"
| "add_entry ((c, x) # row) j v = (if c = j then (c, x + v) # row else (c, x) # add_entry row j v)"

definition SparseMatrix_Add :: "SparseMatrix \<Rightarrow> nat \<Rightarrow> nat \<Rightarrow> real \<Rightarrow> SparseMatrix" where
  "SparseMatrix_Add A i j v = A \<lparr> Rows := (Rows A)[i := add_entry (Rows A ! i) j v] \<rparr>"

definition SparseMatrix_AddRow :: "SparseMatrix \<Rightarrow> nat \<Rightarrow> nat list \<Rightarrow> real list \<Rightarrow> SparseMatrix" where
  "SparseMatrix_AddRow A i cols srow = foldl (\<lambda>B e. SparseMatrix_Add B i (fst e) (snd e)) A (zip cols srow)"

definition SparseMatrix_SetRow :: "SparseMatrix \<Rightarrow> nat \<Rightarrow> nat list \<Rightarrow> real list \<Rightarrow> SparseMatrix" where
  "SparseMatrix_SetRow A i cols srow = A \<lparr> Rows := (Rows A)[i := zip cols srow] \<rparr>"

text \<open>
  \<^verbatim>\<open>DofFinalizable\<close> (lines 738-750): the loop over the \<open>ndep\<close> columns of the row of \<open>dof\<close>
  returns false at the first constraining DOF that is not finalized. The columns of the
  dependency matrix are DOF indices below \<open>ndofs\<close>.
\<close>

fun DofFinalizable_loop :: "bool list \<Rightarrow> nat list \<Rightarrow> bool" where
  "DofFinalizable_loop finalized [] = True"
| "DofFinalizable_loop finalized (c # dep) =
     (if \<not> finalized ! c then False else DofFinalizable_loop finalized dep)"

definition DofFinalizable :: "nat \<Rightarrow> bool list \<Rightarrow> SparseMatrix \<Rightarrow> bool" where
  "DofFinalizable dof finalized deps =
     DofFinalizable_loop finalized
       (take (SparseMatrix_RowSize deps dof) (SparseMatrix_GetRowColumns deps dof))"

text \<open>
  The variables of the resolution loop of \<^verbatim>\<open>BuildConformingInterpolation\<close> (lines
  1041-1067): the matrix \<open>cP\<close> under construction, the \<open>finalized\<close> markers, the counter
  \<open>n_finalized\<close> and the flag \<open>finished\<close>.
\<close>

record finalization =
  cP_mat :: SparseMatrix
  finalized :: "bool list"
  n_finalized :: int
  finished :: bool

text \<open>
  Lines 1056-1058: the row of the master DOF \<open>dep_col[j]\<close>, scaled by \<open>dep_coef[j]\<close>, is
  added to the row of \<open>dof\<close>.
\<close>

definition add_master_row :: "nat \<Rightarrow> SparseMatrix \<Rightarrow> nat \<times> real \<Rightarrow> SparseMatrix" where
  "add_master_row dof P dep =
     (let cols = SparseMatrix_GetRowColumns P (fst dep);
          srow = map (\<lambda>x. x * snd dep) (SparseMatrix_GetRowEntries P (fst dep))
      in SparseMatrix_AddRow P dof cols srow)"

text \<open>The body of the \<^verbatim>\<open>for\<close> loop over the DOFs (lines 1048-1064).\<close>

definition finalize_dof :: "SparseMatrix \<Rightarrow> finalization \<Rightarrow> nat \<Rightarrow> finalization" where
  "finalize_dof deps s dof =
     (if \<not> finalized s ! dof \<and> DofFinalizable dof (finalized s) deps
      then s \<lparr> cP_mat := foldl (add_master_row dof) (cP_mat s)
                            (take (SparseMatrix_RowSize deps dof)
                               (zip (SparseMatrix_GetRowColumns deps dof)
                                    (SparseMatrix_GetRowEntries deps dof))),
                finalized := (finalized s)[dof := True],
                n_finalized := n_finalized s + 1,
                finished := False \<rparr>
      else s)"

text \<open>
  One pass of the \<^verbatim>\<open>do\<close> loop (lines 1045-1065): \<open>finished\<close> is set, then every DOF is
  visited. The array \<open>finalized\<close> has \<open>ndofs\<close> entries (line 1001).
\<close>

definition finalize_pass :: "SparseMatrix \<Rightarrow> finalization \<Rightarrow> finalization" where
  "finalize_pass deps s =
     foldl (finalize_dof deps) (s \<lparr> finished := True \<rparr>) [0..<length (finalized s)]"

text \<open>
  The number of DOFs not yet finalized; it decreases in every pass that does not end
  the loop, which is why the loop terminates.
\<close>

definition unfinalized :: "bool list \<Rightarrow> nat" where
  "unfinalized fin = length (filter Not fin)"

lemma unfinalized_update_le: "unfinalized (fin[i := True]) \<le> unfinalized fin"
  unfolding unfinalized_def
  by (induction fin arbitrary: i) (auto split: nat.splits)

lemma unfinalized_update_less:
  "i < length fin \<Longrightarrow> \<not> fin ! i \<Longrightarrow> Suc (unfinalized (fin[i := True])) = unfinalized fin"
  unfolding unfinalized_def
  by (induction fin arbitrary: i) (auto split: nat.splits simp: nth_Cons)

lemma finalize_dof_cases:
  "finalize_dof deps s dof = s \<or>
   (\<not> finalized s ! dof \<and> DofFinalizable dof (finalized s) deps \<and>
    finalized (finalize_dof deps s dof) = (finalized s)[dof := True] \<and>
    n_finalized (finalize_dof deps s dof) = n_finalized s + 1 \<and>
    \<not> finished (finalize_dof deps s dof))"
  by (simp add: finalize_dof_def)

lemma finalize_fold_length:
  "length (finalized (foldl (finalize_dof deps) s xs)) = length (finalized s)"
proof (induction xs arbitrary: s)
  case Nil show ?case by simp
next
  case (Cons x xs)
  show ?case using Cons.IH[of "finalize_dof deps s x"] finalize_dof_cases[of deps s x] by auto
qed

lemma finalize_fold_count:
  "\<forall>x \<in> set xs. x < length (finalized s) \<Longrightarrow>
   n_finalized (foldl (finalize_dof deps) s xs) + int (unfinalized (finalized (foldl (finalize_dof deps) s xs)))
   = n_finalized s + int (unfinalized (finalized s))"
proof (induction xs arbitrary: s)
  case Nil show ?case by simp
next
  case (Cons x xs)
  let ?t = "finalize_dof deps s x"
  have len: "length (finalized ?t) = length (finalized s)"
    using finalize_dof_cases[of deps s x] by auto
  have step: "n_finalized ?t + int (unfinalized (finalized ?t)) = n_finalized s + int (unfinalized (finalized s))"
  proof (cases "?t = s")
    case True then show ?thesis by simp
  next
    case False
    then have c: "\<not> finalized s ! x" "finalized ?t = (finalized s)[x := True]" "n_finalized ?t = n_finalized s + 1"
      using finalize_dof_cases[of deps s x] by auto
    have "x < length (finalized s)" using Cons.prems by simp
    from unfinalized_update_less[OF this c(1)] show ?thesis using c by simp
  qed
  have "\<forall>y \<in> set xs. y < length (finalized ?t)" using Cons.prems len by simp
  from Cons.IH[OF this] step show ?case by simp
qed

lemma finalize_fold_finished:
  "finished (foldl (finalize_dof deps) s xs) \<Longrightarrow>
   foldl (finalize_dof deps) s xs = s \<and>
   (\<forall>x \<in> set xs. \<not> (\<not> finalized s ! x \<and> DofFinalizable x (finalized s) deps))"
proof (induction xs arbitrary: s)
  case Nil show ?case by simp
next
  case (Cons x xs)
  let ?t = "finalize_dof deps s x"
  from Cons.prems have f: "finished (foldl (finalize_dof deps) ?t xs)" by simp
  from Cons.IH[OF f] have eq: "foldl (finalize_dof deps) ?t xs = ?t"
    and rest: "\<forall>y \<in> set xs. \<not> (\<not> finalized ?t ! y \<and> DofFinalizable y (finalized ?t) deps)" by auto
  from f eq have ft: "finished ?t" by simp
  have nc: "\<not> (\<not> finalized s ! x \<and> DofFinalizable x (finalized s) deps)"
  proof
    assume "\<not> finalized s ! x \<and> DofFinalizable x (finalized s) deps"
    then have "\<not> finished ?t" by (simp add: finalize_dof_def)
    with ft show False by simp
  qed
  then have ts: "?t = s" by (auto simp: finalize_dof_def)
  with eq nc rest show ?case by simp
qed

lemma finalize_pass_count:
  "n_finalized (finalize_pass deps s) + int (unfinalized (finalized (finalize_pass deps s)))
   = n_finalized s + int (unfinalized (finalized s))"
  unfolding finalize_pass_def
  using finalize_fold_count[of "[0..<length (finalized s)]" "s\<lparr>finished := True\<rparr>" deps] by simp

lemma finalize_pass_length:
  "length (finalized (finalize_pass deps s)) = length (finalized s)"
  unfolding finalize_pass_def by (simp add: finalize_fold_length)

lemma not_finished_stays:
  "\<not> finished s \<Longrightarrow> \<not> finished (foldl (finalize_dof deps) s xs)"
  by (induction xs arbitrary: s) (auto simp: finalize_dof_def)

lemma finalize_fold_n_mono:
  "n_finalized s \<le> n_finalized (foldl (finalize_dof deps) s xs)"
proof (induction xs arbitrary: s)
  case Nil show ?case by simp
next
  case (Cons x xs)
  show ?case using Cons.IH[of "finalize_dof deps s x"] finalize_dof_cases[of deps s x] by auto
qed

lemma finalize_fold_changed:
  "finished s \<Longrightarrow> \<not> finished (foldl (finalize_dof deps) s xs) \<Longrightarrow>
   n_finalized s < n_finalized (foldl (finalize_dof deps) s xs)"
proof (induction xs arbitrary: s)
  case Nil then show ?case by simp
next
  case (Cons x xs)
  let ?t = "finalize_dof deps s x"
  show ?case
  proof (cases "?t = s")
    case True
    with Cons show ?thesis by simp
  next
    case False
    then have "n_finalized ?t = n_finalized s + 1"
      using finalize_dof_cases[of deps s x] by auto
    with finalize_fold_n_mono[of ?t deps xs] show ?thesis by simp
  qed
qed

lemma finalize_pass_decreases:
  "\<not> finished (finalize_pass deps s) \<Longrightarrow>
   unfinalized (finalized (finalize_pass deps s)) < unfinalized (finalized s)"
proof -
  assume nf: "\<not> finished (finalize_pass deps s)"
  have "n_finalized (s\<lparr>finished := True\<rparr>) < n_finalized (finalize_pass deps s)"
    unfolding finalize_pass_def
    by (rule finalize_fold_changed) (use nf in \<open>simp_all add: finalize_pass_def\<close>)
  with finalize_pass_count[of deps s] show ?thesis by simp
qed

text \<open>The \<^verbatim>\<open>do ... while (!finished)\<close> loop (lines 1043-1067).\<close>

function finalize_loop :: "SparseMatrix \<Rightarrow> finalization \<Rightarrow> finalization" where
  "finalize_loop deps s =
     (let s' = finalize_pass deps s in
      if finished s' then s' else finalize_loop deps s')"
  by pat_completeness auto
termination
  by (relation "measure (\<lambda>(deps, s). unfinalized (finalized s))")
     (auto simp: finalize_pass_decreases)

declare finalize_loop.simps [simp del]

text \<open>
  The variables of the loop that enters the true DOFs (lines 1008-1032): \<open>cP\<close>, the
  column array \<open>cR_J\<close> of \<open>cR\<close>, \<open>cQ\<close> (absent unless the space has variable order), the
  \<open>finalized\<close> markers and the counter \<open>true_dof\<close>.
\<close>

record identity_build =
  ib_cP :: SparseMatrix
  ib_cR_J :: "nat list"
  ib_cQ :: "SparseMatrix option"
  ib_finalized :: "bool list"
  ib_true_dof :: nat

definition identity_row :: "SparseMatrix \<Rightarrow> SparseMatrix \<Rightarrow> identity_build \<Rightarrow> nat \<Rightarrow> identity_build" where
  "identity_row deps sped s i =
     (if SparseMatrix_RowSize deps i = 0
      then s \<lparr> ib_cP := SparseMatrix_Add (ib_cP s) i (ib_true_dof s) 1,
               ib_cR_J := (ib_cR_J s)[ib_true_dof s := i],
               ib_cQ := (case ib_cQ s of
                           None \<Rightarrow> None
                         | Some Q \<Rightarrow>
                             Some (if SparseMatrix_RowSize sped i \<noteq> 0
                                   then SparseMatrix_AddRow Q (ib_true_dof s)
                                          (SparseMatrix_GetRowColumns sped i)
                                          (SparseMatrix_GetRowEntries sped i)
                                   else SparseMatrix_Add Q (ib_true_dof s) i 1)),
               ib_finalized := (ib_finalized s)[i := True],
               ib_true_dof := ib_true_dof s + 1 \<rparr>
      else s)"

text \<open>
  Lines 980-1032: the matrices are created and the loop runs over all DOFs.
\<close>

definition identity_rows :: "bool \<Rightarrow> SparseMatrix \<Rightarrow> SparseMatrix \<Rightarrow> nat \<Rightarrow> nat \<Rightarrow> identity_build" where
  "identity_rows variable_order deps sped n n_true_dofs =
     foldl (identity_row deps sped)
       \<lparr> ib_cP = new_SparseMatrix n n_true_dofs,
         ib_cR_J = replicate n_true_dofs 0,
         ib_cQ = (if variable_order then Some (new_SparseMatrix n_true_dofs n) else None),
         ib_finalized = replicate n False,
         ib_true_dof = 0 \<rparr>
       [0..<n]"

text \<open>
  \<^verbatim>\<open>DofsToVDofs(vd, dofs, ndofs)\<close> (lines 184-203) and \<^verbatim>\<open>MakeVDimMatrix\<close> (lines 1090-1115),
  which repeats a matrix block-diagonally for the \<open>vdim\<close> components.
\<close>

definition DofsToVDofs_vd ::
  "(Ordering \<Rightarrow> int \<Rightarrow> int \<Rightarrow> int \<Rightarrow> int \<Rightarrow> int) \<Rightarrow> FiniteElementSpace \<Rightarrow> int \<Rightarrow> int list \<Rightarrow> int \<Rightarrow> int list" where
  "DofsToVDofs_vd Map fes vd dofs ndofs_arg =
     (if vdim fes = 1 then dofs
      else let nd = (if ndofs_arg < 0 then ndofs fes else ndofs_arg) in
        if ordering fes = byNODES then map (\<lambda>d. Map byNODES nd (vdim fes) d vd) dofs
        else map (\<lambda>d. Map byVDIM nd (vdim fes) d vd) dofs)"

definition MakeVDimMatrix ::
  "(Ordering \<Rightarrow> int \<Rightarrow> int \<Rightarrow> int \<Rightarrow> int \<Rightarrow> int) \<Rightarrow> FiniteElementSpace \<Rightarrow> SparseMatrix \<Rightarrow> SparseMatrix" where
  "MakeVDimMatrix Map fes mat =
     (if vdim fes = 1 then mat
      else let height = length (Rows mat); width = Width mat
        in foldl (\<lambda>vmat i.
              foldl (\<lambda>vmat vd.
                   SparseMatrix_SetRow vmat
                     (nat (DofToVDof Map fes (int i) (int vd) (int height)))
                     (map nat (DofsToVDofs_vd Map fes (int vd)
                                 (map int (SparseMatrix_GetRowColumns mat i)) (int width)))
                     (SparseMatrix_GetRowEntries mat i))
                vmat [0..<nat (vdim fes)])
             (new_SparseMatrix (nat (vdim fes) * height) (nat (vdim fes) * width))
             [0..<height])"

text \<open>The state in which the resolution loop starts (lines 1041-1042).\<close>

definition finalization_start :: "identity_build \<Rightarrow> nat \<Rightarrow> finalization" where
  "finalization_start ib n_true_dofs =
     \<lparr> cP_mat = ib_cP ib, finalized = ib_finalized ib,
       n_finalized = int n_true_dofs, finished = False \<rparr>"

text \<open>
  \<^verbatim>\<open>BuildConformingInterpolation\<close> (lines 817-1088). The first phase (lines 827-963)
  collects the dependencies from the mesh and the finite element collection, which are
  outside the sources: its results, the finalized dependency matrices \<open>deps\<close> and \<open>sped\<close>,
  are arguments of the model, as is \<open>variable_order\<close>, the value of
  \<^verbatim>\<open>IsVariableOrder()\<close>. The model is the rest of the function: the early return when the
  operators are already set, the count of the true DOFs, the case where all DOFs are
  true, the construction of \<open>cP\<close>, \<open>cR\<close> and \<open>cQ\<close>, the resolution loop, the abort when a
  DOF could not be finalized, and the expansion to \<open>vdim\<close> components.
\<close>

definition BuildConformingInterpolation ::
  "(Ordering \<Rightarrow> int \<Rightarrow> int \<Rightarrow> int \<Rightarrow> int \<Rightarrow> int) \<Rightarrow> bool \<Rightarrow> SparseMatrix \<Rightarrow> SparseMatrix \<Rightarrow>
   FiniteElementSpace \<Rightarrow> error + FiniteElementSpace" where
  "BuildConformingInterpolation Map variable_order deps sped fes =
     (if cP_is_set fes then Inr fes
      else
        let fes1 = fes \<lparr> cP_is_set := True \<rparr>;
            n = nat (ndofs fes);
            n_true_dofs = length (filter (\<lambda>i. SparseMatrix_RowSize deps i = 0) [0..<n])
        in
          if int n_true_dofs = ndofs fes
          then Inr (fes1 \<lparr> cP := None, cR := None, cQ := None \<rparr>)
          else
            let ib = identity_rows variable_order deps sped n n_true_dofs;
                fin = finalize_loop deps (finalization_start ib n_true_dofs)
            in
              if n_finalized fin \<noteq> ndofs fes then Inl Abort
              else
                let cR_mat = \<lparr> Width = n, Rows = map (\<lambda>j. [(j, 1)]) (ib_cR_J ib) \<rparr>
                in
                  if vdim fes > 1
                  then Inr (fes1 \<lparr> cP := Some (MakeVDimMatrix Map fes (cP_mat fin)),
                                   cR := Some (MakeVDimMatrix Map fes cR_mat),
                                   cQ := map_option (MakeVDimMatrix Map fes) (ib_cQ ib) \<rparr>)
                  else Inr (fes1 \<lparr> cP := Some (cP_mat fin), cR := Some cR_mat, cQ := ib_cQ ib \<rparr>))"

text \<open>
  \<^verbatim>\<open>GetConformingProlongation\<close> and \<^verbatim>\<open>GetConformingRestriction\<close> (lines 1118-1130). The
  members they write are \<^verbatim>\<open>mutable\<close>, so the model returns the space with the result.
  \<open>conforming\<close> is the value of \<^verbatim>\<open>Conforming()\<close>, which the header defines.
\<close>

definition GetConformingProlongation ::
  "bool \<Rightarrow> (Ordering \<Rightarrow> int \<Rightarrow> int \<Rightarrow> int \<Rightarrow> int \<Rightarrow> int) \<Rightarrow> bool \<Rightarrow> SparseMatrix \<Rightarrow> SparseMatrix \<Rightarrow>
   FiniteElementSpace \<Rightarrow> error + (SparseMatrix option \<times> FiniteElementSpace)" where
  "GetConformingProlongation conforming Map variable_order deps sped fes =
     (if conforming then Inr (None, fes)
      else if \<not> cP_is_set fes
      then (case BuildConformingInterpolation Map variable_order deps sped fes of
              Inl e \<Rightarrow> Inl e
            | Inr fes' \<Rightarrow> Inr (cP fes', fes'))
      else Inr (cP fes, fes))"

definition GetConformingRestriction ::
  "bool \<Rightarrow> (Ordering \<Rightarrow> int \<Rightarrow> int \<Rightarrow> int \<Rightarrow> int \<Rightarrow> int) \<Rightarrow> bool \<Rightarrow> SparseMatrix \<Rightarrow> SparseMatrix \<Rightarrow>
   FiniteElementSpace \<Rightarrow> error + (SparseMatrix option \<times> FiniteElementSpace)" where
  "GetConformingRestriction conforming Map variable_order deps sped fes =
     (if conforming then Inr (None, fes)
      else if \<not> cP_is_set fes
      then (case BuildConformingInterpolation Map variable_order deps sped fes of
              Inl e \<Rightarrow> Inl e
            | Inr fes' \<Rightarrow> Inr (cR fes', fes'))
      else Inr (cR fes, fes))"

text \<open>
  \<^verbatim>\<open>ConvertToConformingVDofs\<close> (lines 528-534), a caller: when \<open>cP\<close> is absent the DOFs are
  copied unchanged.
\<close>

definition ConvertToConformingVDofs ::
  "(SparseMatrix \<Rightarrow> int list \<Rightarrow> int list) \<Rightarrow>
   bool \<Rightarrow> (Ordering \<Rightarrow> int \<Rightarrow> int \<Rightarrow> int \<Rightarrow> int \<Rightarrow> int) \<Rightarrow> bool \<Rightarrow> SparseMatrix \<Rightarrow> SparseMatrix \<Rightarrow>
   FiniteElementSpace \<Rightarrow> int list \<Rightarrow> error + (int list \<times> FiniteElementSpace)" where
  "ConvertToConformingVDofs BooleanMultTranspose conforming Map variable_order deps sped fes dofs =
     (case GetConformingProlongation conforming Map variable_order deps sped fes of
        Inl e \<Rightarrow> Inl e
      | Inr (p, fes') \<Rightarrow>
          (case cP fes' of
             Some P \<Rightarrow> Inr (BooleanMultTranspose P dofs, fes')
           | None \<Rightarrow> Inr (dofs, fes')))"

text \<open>
  The state of the resolution loop when it ends, for a space of \<open>n\<close> DOFs: what
  \<^verbatim>\<open>BuildConformingInterpolation\<close> holds at line 1067 when not all DOFs are true.
\<close>

definition final_state :: "bool \<Rightarrow> SparseMatrix \<Rightarrow> SparseMatrix \<Rightarrow> nat \<Rightarrow> finalization" where
  "final_state variable_order deps sped n =
     (let n_true_dofs = length (filter (\<lambda>i. SparseMatrix_RowSize deps i = 0) [0..<n])
      in finalize_loop deps
           (finalization_start (identity_rows variable_order deps sped n n_true_dofs) n_true_dofs))"

text \<open>
  Two dependency matrices to run the function on. In the first, DOF 1 depends on the
  true DOFs 0 and 2 and DOF 3 on DOF 1 and DOF 2; in the second, DOFs 1 and 2 depend on
  each other.
\<close>

definition example_deps :: SparseMatrix where
  "example_deps = \<lparr> Width = 4, Rows = [[], [(0, 1 / 2), (2, 1 / 2)], [], [(1, 1 / 2), (2, 1 / 2)]] \<rparr>"

definition example_cyclic_deps :: SparseMatrix where
  "example_cyclic_deps = \<lparr> Width = 3, Rows = [[], [(0, 1 / 2), (2, 1 / 2)], [(1, 1)]] \<rparr>"

section \<open>Order masks of edges and faces\<close>

text \<open>
  An order mask (\<^verbatim>\<open>VarOrderBits\<close>) is an unsigned integer of a fixed width, given by the
  header; the model is a word of any length \<open>'a\<close>, bit \<open>p\<close> standing for the order \<open>p\<close>.

  \<^verbatim>\<open>MinOrder\<close> (lines 1991-1999): the loop shifts the mask right until its lowest bit is
  set, counting the shifts, and returns 0 for the empty mask (the assertion that the
  mask is not empty is compiled out of a release build).
\<close>

function MinOrder_loop :: "'a::len word \<Rightarrow> int \<Rightarrow> int" where
  "MinOrder_loop bits order =
     (if bits = 0 then 0
      else if bits AND 1 \<noteq> 0 then order
      else MinOrder_loop (drop_bit 1 bits) (order + 1))"
  by pat_completeness auto
termination
proof (relation "measure (\<lambda>(bits, order). unat bits)")
  show "wf (measure (\<lambda>(bits :: 'a word, order :: int). unat bits))" by simp
next
  fix bits :: "'a word" and order :: int
  assume "bits \<noteq> 0"
  then have "unat bits \<noteq> 0" by (simp add: unat_eq_0)
  then have "unat bits div 2 < unat bits" by simp
  then show "((drop_bit 1 bits, order + 1), (bits, order)) \<in> measure (\<lambda>(bits, order). unat bits)"
    by (simp add: unat_drop_bit_eq drop_bit_eq_div unat_div)
qed

declare MinOrder_loop.simps [simp del]

definition MinOrder :: "'a::len word \<Rightarrow> int" where
  "MinOrder bits = MinOrder_loop bits 0"

lemma and_one_bit0: "(w AND 1 \<noteq> 0) \<longleftrightarrow> bit (w :: 'a::len word) 0"
  by (simp add: and_one_eq bit_0 mod_2_eq_odd)

lemma MinOrder_loop_least:
  "bits \<noteq> 0 \<Longrightarrow>
   \<exists>n. MinOrder_loop bits order = order + int n \<and> bit bits n \<and> (\<forall>k < n. \<not> bit bits k)"
proof (induction bits order rule: MinOrder_loop.induct)
  case (1 bits order)
  show ?case
  proof (cases "bit bits 0")
    case True
    then have "MinOrder_loop bits order = order"
      using "1.prems" by (subst MinOrder_loop.simps) (simp add: and_one_bit0)
    with True show ?thesis by (intro exI[of _ 0]) simp
  next
    case False
    then have r: "MinOrder_loop bits order = MinOrder_loop (drop_bit 1 bits) (order + 1)"
      using "1.prems" by (subst MinOrder_loop.simps) (simp add: and_one_bit0)
    have nz: "drop_bit 1 bits \<noteq> 0"
    proof
      assume z: "drop_bit 1 bits = 0"
      have "bit bits n = False" for n
      proof (cases n)
        case 0 then show ?thesis using False by simp
      next
        case (Suc m)
        have "bit (drop_bit 1 bits) m = bit bits (Suc m)" by (simp add: bit_drop_bit_eq)
        then show ?thesis using z Suc by simp
      qed
      then have "bits = 0" by (simp add: bit_eq_iff)
      with "1.prems" show False by simp
    qed
    from "1.IH"[OF "1.prems" _ nz] False
    obtain n where n: "MinOrder_loop (drop_bit 1 bits) (order + 1) = order + 1 + int n"
      "bit (drop_bit 1 bits) n" "\<forall>k < n. \<not> bit (drop_bit 1 bits) k"
      by (auto simp: and_one_bit0)
    have "bit bits (Suc n)" using n(2) by (simp add: bit_drop_bit_eq)
    moreover have "\<not> bit bits k" if "k < Suc n" for k
    proof (cases k)
      case 0 then show ?thesis using False by simp
    next
      case (Suc m)
      then have "m < n" using that by simp
      then have "\<not> bit (drop_bit 1 bits) m" using n(3) by simp
      then show ?thesis using Suc by (simp add: bit_drop_bit_eq)
    qed
    ultimately show ?thesis using r n(1) by (intro exI[of _ "Suc n"]) simp
  qed
qed

lemma MinOrder_zero: "MinOrder (0 :: 'a::len word) = 0"
  by (simp add: MinOrder_def MinOrder_loop.simps)

lemma MinOrder_nonneg: "0 \<le> MinOrder bits"
proof (cases "bits = 0")
  case True then show ?thesis by (simp add: MinOrder_zero)
next
  case False
  from MinOrder_loop_least[OF False, of 0] show ?thesis by (auto simp: MinOrder_def)
qed

lemma below_MinOrder_clear:
  fixes master :: "'a::len word"
  assumes "0 \<le> m" "m < MinOrder master"
  shows "\<not> bit master (nat m) \<and> nat m < LENGTH('a)"
proof -
  have nz: "master \<noteq> 0" using assms by (auto simp: MinOrder_zero)
  from MinOrder_loop_least[OF nz, of 0] obtain n where
    n: "MinOrder master = int n" "bit master n" "\<forall>k < n. \<not> bit master k"
    by (auto simp: MinOrder_def)
  have "n < LENGTH('a)" using n(2) by (rule bit_imp_le_length)
  moreover have "nat m < n" using assms n(1) by simp
  ultimately show ?thesis using n(3) by simp
qed

text \<open>
  One mask is below another when all its bits are among the other's: this is how masks
  grow when bits are OR-ed in.
\<close>

definition mask_le :: "'a::len word \<Rightarrow> 'a word \<Rightarrow> bool" where
  "mask_le a b \<longleftrightarrow> a OR b = b"

lemma mask_le_refl: "mask_le a a" by (simp add: mask_le_def)
lemma mask_le_or: "mask_le a (a OR m)" by (simp add: mask_le_def or.assoc [symmetric])
lemma mask_le_trans: "mask_le a b \<Longrightarrow> mask_le b c \<Longrightarrow> mask_le a c"
  unfolding mask_le_def by (metis or.assoc)
lemma mask_le_antisym: "mask_le a b \<Longrightarrow> mask_le b a \<Longrightarrow> a = b"
  unfolding mask_le_def by (metis or.commute)
lemma mask_le_word_le: "mask_le a b \<Longrightarrow> a \<le> b"
  unfolding mask_le_def by (metis le_word_or2)
lemma or_new_bit_neq:
  fixes w :: "'a::len word"
  assumes "\<not> bit w n" "n < LENGTH('a)"
  shows "w OR push_bit n 1 \<noteq> w"
proof
  assume "w OR push_bit n 1 = w"
  then have "bit (w OR push_bit n 1) n = bit w n" by simp
  then show False using assms by (simp add: bit_simps)
qed

text \<open>
  What \<^verbatim>\<open>CalcEdgeFaceVarOrders\<close> reads of the mesh and of the non-conforming mesh: a
  master entity with the range of its slaves in the list, the list of master/slave
  relations of the edges and of the faces (a slave is given by its \<open>index\<close>), the counts,
  and the edges and faces of an element and the edges of a face. The record also holds
  what the DOF locator reads: the orientations of the edges of a face, the vertices and
  the geometry of a face, and the vertices of an edge.
\<close>

record Master =
  index :: int
  slaves_begin :: int
  slaves_end :: int

record NCList =
  masters :: "Master list"
  slaves :: "int list"

record Mesh =
  Dimension :: int
  GetNE :: int
  GetNEdges :: int
  GetNFaces :: int
  GetElementEdges :: "int \<Rightarrow> int list"
  GetElementFaces :: "int \<Rightarrow> int list"
  GetFaceEdges :: "int \<Rightarrow> int list"
  GetFaceEdgeOrientations :: "int \<Rightarrow> int list"
  GetFaceVertices :: "int \<Rightarrow> int list"
  GetFaceGeometry :: "int \<Rightarrow> Geometry"
  GetEdgeVertices :: "int \<Rightarrow> int list"
  GetEdgeList :: NCList
  GetFaceList :: NCList

text \<open>
  Reading and updating an array at an index: \<open>None\<close> stands for an index outside the
  array, where the function does not return normally. \<open>foldM\<close> is a loop over a list
  whose body may fail.
\<close>

definition elem_at :: "'a list \<Rightarrow> int \<Rightarrow> 'a option" where
  "elem_at xs i = (if 0 \<le> i \<and> i < int (length xs) then Some (xs ! nat i) else None)"

definition or_into :: "'a::len word list \<Rightarrow> int \<Rightarrow> 'a word \<Rightarrow> 'a word list option" where
  "or_into xs i m =
     (if 0 \<le> i \<and> i < int (length xs) then Some (xs[nat i := xs ! nat i OR m]) else None)"

fun foldM :: "('s \<Rightarrow> 'x \<Rightarrow> 's option) \<Rightarrow> 's \<Rightarrow> 'x list \<Rightarrow> 's option" where
  "foldM f s [] = Some s"
| "foldM f s (x # xs) = (case f s x of None \<Rightarrow> None | Some s' \<Rightarrow> foldM f s' xs)"

text \<open>
  \<^verbatim>\<open>CalcEdgeFaceVarOrders\<close>, the loop that propagates orders (lines 2045-2103).
  Lines 2054-2058: the orders of all slave edges of a master edge, OR-ed together.
\<close>

definition edge_slave_orders :: "NCList \<Rightarrow> 'a::len word list \<Rightarrow> Master \<Rightarrow> 'a word option" where
  "edge_slave_orders edge_list edge_orders master =
     foldM (\<lambda>slave_orders i. do {
              slave \<leftarrow> elem_at (slaves edge_list) i;
              eo \<leftarrow> elem_at edge_orders slave;
              Some (slave_orders OR eo) })
       0 [slaves_begin master..slaves_end master - 1]"

text \<open>
  Lines 2052-2066, for one master edge: if the minimum order of the slaves is below the
  minimum order of the master, that order is added to the master's mask and \<open>done\<close>
  becomes false. The state is the array \<open>edge_orders\<close> and the flag \<open>done\<close>.
\<close>

definition edge_master_step ::
  "NCList \<Rightarrow> 'a::len word list \<times> bool \<Rightarrow> Master \<Rightarrow> ('a word list \<times> bool) option" where
  "edge_master_step edge_list st master =
     do {
       slave_orders \<leftarrow> edge_slave_orders edge_list (fst st) master;
       mo \<leftarrow> elem_at (fst st) (index master);
       let min_order = MinOrder slave_orders;
       if min_order < MinOrder mo
       then do {
         edge_orders' \<leftarrow> or_into (fst st) (index master) (push_bit (nat min_order) 1);
         Some (edge_orders', False) }
       else Some st
     }"

text \<open>
  Lines 2072-2083: the orders of the slave faces of a master face and of their edges.
\<close>

definition face_slave_orders ::
  "Mesh \<Rightarrow> 'a::len word list \<Rightarrow> 'a word list \<Rightarrow> Master \<Rightarrow> 'a word option" where
  "face_slave_orders mesh edge_orders face_orders master =
     foldM (\<lambda>slave_orders i. do {
              slave \<leftarrow> elem_at (slaves (GetFaceList mesh)) i;
              fo \<leftarrow> elem_at face_orders slave;
              foldM (\<lambda>so e. do { eo \<leftarrow> elem_at edge_orders e; Some (so OR eo) })
                (slave_orders OR fo) (GetFaceEdges mesh slave) })
       0 [slaves_begin master..slaves_end master - 1]"

text \<open>
  Lines 2070-2091, for one master face.
\<close>

definition face_master_step ::
  "Mesh \<Rightarrow> 'a::len word list \<Rightarrow> 'a word list \<times> bool \<Rightarrow> Master \<Rightarrow> ('a word list \<times> bool) option" where
  "face_master_step mesh edge_orders st master =
     do {
       slave_orders \<leftarrow> face_slave_orders mesh edge_orders (fst st) master;
       mo \<leftarrow> elem_at (fst st) (index master);
       let min_order = MinOrder slave_orders;
       if min_order < MinOrder mo
       then do {
         face_orders' \<leftarrow> or_into (fst st) (index master) (push_bit (nat min_order) 1);
         Some (face_orders', False) }
       else Some st
     }"

text \<open>
  Lines 2094-2101: every edge of a face gets the orders of the face.
\<close>

definition faces_to_edges ::
  "Mesh \<Rightarrow> 'a::len word list \<Rightarrow> 'a word list \<Rightarrow> 'a word list option" where
  "faces_to_edges mesh face_orders edge_orders =
     foldM (\<lambda>eo i. foldM (\<lambda>eo e. do { fo \<leftarrow> elem_at face_orders i; or_into eo e fo })
                      eo (GetFaceEdges mesh i))
       edge_orders [0..GetNFaces mesh - 1]"

text \<open>
  One pass of the \<^verbatim>\<open>do\<close> loop: \<open>done\<close> is set, the master edges, the master faces and
  then all faces are visited. The result is the new pair of arrays and \<open>done\<close>.
\<close>

definition propagate_pass ::
  "Mesh \<Rightarrow> 'a::len word list \<times> 'a word list \<Rightarrow> (('a word list \<times> 'a word list) \<times> bool) option" where
  "propagate_pass mesh st =
     do {
       es \<leftarrow> foldM (edge_master_step (GetEdgeList mesh)) (fst st, True) (masters (GetEdgeList mesh));
       fs \<leftarrow> foldM (face_master_step mesh (fst es)) (snd st, snd es) (masters (GetFaceList mesh));
       edge_orders' \<leftarrow> faces_to_edges mesh (fst fs) (fst es);
       Some ((edge_orders', fst fs), snd fs)
     }"

text \<open>
  The measure of the loop: for each mask, how far it is from the full mask; summed over
  both arrays.
\<close>

definition gap :: "'a::len word \<Rightarrow> nat" where
  "gap w = 2 ^ LENGTH('a) - 1 - unat w"

definition weight :: "'a::len word list \<Rightarrow> nat" where
  "weight xs = sum_list (map gap xs)"

definition masks_le :: "'a::len word list \<Rightarrow> 'a word list \<Rightarrow> bool" where
  "masks_le xs ys \<longleftrightarrow> list_all2 mask_le xs ys"

lemma gap_mono: "a \<le> b \<Longrightarrow> gap b \<le> gap a"
  by (simp add: gap_def word_le_nat_alt)

lemma gap_strict: "a < b \<Longrightarrow> gap b < gap (a :: 'a::len word)"
proof -
  assume "a < b"
  then have "unat a < unat b" by (simp add: word_less_nat_alt)
  moreover have "unat b < 2 ^ LENGTH('a)"
    by (rule unsigned_less)
  then have "unat b \<le> 2 ^ LENGTH('a) - 1" by arith
  ultimately show ?thesis by (simp add: gap_def)
qed

lemma masks_le_refl: "masks_le xs xs"
  by (simp add: masks_le_def list_all2_refl mask_le_refl)

lemma masks_le_trans: "masks_le xs ys \<Longrightarrow> masks_le ys zs \<Longrightarrow> masks_le xs zs"
  unfolding masks_le_def
proof (rule list_all2_trans)
  show "mask_le a b \<Longrightarrow> mask_le b c \<Longrightarrow> mask_le a c" for a b c :: "'a word"
    by (rule mask_le_trans)
qed

lemma masks_le_antisym: "masks_le xs ys \<Longrightarrow> masks_le ys xs \<Longrightarrow> xs = ys"
  unfolding masks_le_def
  by (rule list_all2_antisym[of mask_le mask_le]) (auto intro: mask_le_antisym)

lemma masks_le_length: "masks_le xs ys \<Longrightarrow> length ys = length xs"
  by (simp add: masks_le_def list_all2_lengthD)

lemma weight_mono: "masks_le xs ys \<Longrightarrow> weight ys \<le> weight xs"
  unfolding masks_le_def weight_def
  by (induction xs ys rule: list_all2_induct) (auto intro: add_mono gap_mono mask_le_word_le)

lemma weight_strict: "masks_le xs ys \<Longrightarrow> xs \<noteq> ys \<Longrightarrow> weight ys < weight xs"
  unfolding masks_le_def
proof (induction xs ys rule: list_all2_induct)
  case Nil then show ?case by simp
next
  case (Cons x xs y ys)
  have le: "weight ys \<le> weight xs" using Cons.hyps(2) by (simp add: weight_mono masks_le_def)
  show ?case
  proof (cases "x = y")
    case True
    with Cons have "weight ys < weight xs" by simp
    with True show ?thesis by (simp add: weight_def)
  next
    case False
    with Cons.hyps(1) have "x < y" using mask_le_word_le[of x y] by simp
    then have "gap y < gap x" by (rule gap_strict)
    with le show ?thesis by (simp add: weight_def)
  qed
qed

lemma or_into_masks_le: "or_into xs i m = Some ys \<Longrightarrow> masks_le xs ys"
  by (auto simp: or_into_def masks_le_def list_all2_conv_all_nth nth_list_update
                 mask_le_refl mask_le_or split: if_splits)


lemma foldM_rel:
  assumes "foldM f s xs = Some s'"
    and "\<And>a x b. x \<in> set xs \<Longrightarrow> f a x = Some b \<Longrightarrow> R a b"
    and "\<And>a. R a a"
    and "\<And>a b c. R a b \<Longrightarrow> R b c \<Longrightarrow> R a c"
  shows "R s s'"
  using assms(1,2)
proof (induction xs arbitrary: s)
  case Nil
  then show ?case by (simp add: assms(3))
next
  case (Cons x xs)
  from Cons.prems(1) obtain t where t: "f s x = Some t" "foldM f t xs = Some s'"
    by (auto split: option.splits)
  have "R s t" using Cons.prems(2)[of x s t] t(1) by simp
  moreover have "R t s'" using Cons.IH[OF t(2)] Cons.prems(2) by auto
  ultimately show ?case by (rule assms(4))
qed

definition step_rel :: "'a::len word list \<times> bool \<Rightarrow> 'a word list \<times> bool \<Rightarrow> bool" where
  "step_rel st st' \<longleftrightarrow>
     masks_le (fst st) (fst st') \<and> (st' = st \<or> \<not> snd st' \<and> fst st' \<noteq> fst st)"

lemma step_rel_refl: "step_rel st st"
  by (simp add: step_rel_def masks_le_refl)

lemma step_rel_trans:
  assumes "step_rel a b" "step_rel b c"
  shows "step_rel a c"
proof -
  have le: "masks_le (fst a) (fst c)"
    using assms by (auto simp: step_rel_def intro: masks_le_trans)
  have "c = a \<or> \<not> snd c \<and> fst c \<noteq> fst a"
  proof (cases "b = a")
    case True
    with assms(2) show ?thesis by (simp add: step_rel_def)
  next
    case ba: False
    then have b: "\<not> snd b" "fst b \<noteq> fst a" using assms(1) by (auto simp: step_rel_def)
    show ?thesis
    proof (cases "c = b")
      case True
      with b show ?thesis by simp
    next
      case False
      then have c: "\<not> snd c" using assms(2) by (auto simp: step_rel_def)
      have "fst c \<noteq> fst a"
      proof
        assume e: "fst c = fst a"
        have "masks_le (fst a) (fst b)" "masks_le (fst b) (fst a)"
          using assms e by (auto simp: step_rel_def)
        then have "fst a = fst b" by (rule masks_le_antisym)
        with b(2) show False by simp
      qed
      with c show ?thesis by simp
    qed
  qed
  with le show ?thesis by (simp add: step_rel_def)
qed

lemma raise_master_mask:
  fixes orders :: "'a::len word list"
  assumes m: "elem_at orders i = Some mo"
    and lt: "MinOrder slave_orders < MinOrder mo"
    and u: "or_into orders i (push_bit (nat (MinOrder slave_orders)) 1) = Some orders'"
  shows "step_rel (orders, d) (orders', False)"
proof -
  have i: "0 \<le> i" "i < int (length orders)" and mo: "mo = orders ! nat i"
    using m by (auto simp: elem_at_def split: if_splits)
  have o': "orders' = orders[nat i := mo OR push_bit (nat (MinOrder slave_orders)) 1]"
    using u i mo by (simp add: or_into_def)
  from below_MinOrder_clear[OF MinOrder_nonneg lt]
  have "mo OR push_bit (nat (MinOrder slave_orders)) 1 \<noteq> mo"
    by (intro or_new_bit_neq) simp_all
  then have "orders' ! nat i \<noteq> orders ! nat i"
    using i o' mo by simp
  then have "orders' \<noteq> orders" by auto
  then show ?thesis
    using or_into_masks_le[OF u] by (simp add: step_rel_def)
qed

lemma edge_master_step_rel:
  "edge_master_step edge_list st master = Some st' \<Longrightarrow> step_rel st st'"
  unfolding edge_master_step_def
  by (cases st)
     (auto simp: Let_def step_rel_refl split: bind_splits if_splits intro: raise_master_mask)

lemma face_master_step_rel:
  "face_master_step mesh edge_orders st master = Some st' \<Longrightarrow> step_rel st st'"
  unfolding face_master_step_def
  by (cases st)
     (auto simp: Let_def step_rel_refl split: bind_splits if_splits intro: raise_master_mask)

lemma faces_to_edges_masks_le:
  assumes "faces_to_edges mesh face_orders edge_orders = Some edge_orders'"
  shows "masks_le edge_orders edge_orders'"
proof -
  have inner: "masks_le a b"
    if "foldM (\<lambda>eo e. do { fo \<leftarrow> elem_at face_orders i; or_into eo e fo }) a es = Some b"
    for a b :: "'a word list" and i es
    using that
    by (rule foldM_rel)
       (auto split: bind_splits intro: or_into_masks_le masks_le_refl masks_le_trans)
  show ?thesis
    using assms unfolding faces_to_edges_def
    by (rule foldM_rel) (auto intro: inner masks_le_refl masks_le_trans)
qed

definition pair_weight :: "'a::len word list \<times> 'a word list \<Rightarrow> nat" where
  "pair_weight st = weight (fst st) + weight (snd st)"

lemma propagate_pass_props:
  assumes "propagate_pass mesh st = Some (st', done)"
  shows "masks_le (fst st) (fst st')" and "masks_le (snd st) (snd st')"
    and "st' = st \<Longrightarrow> done"
    and "\<not> done \<Longrightarrow> st' \<noteq> st \<and> pair_weight st' < pair_weight st"
proof -
  from assms obtain es fs eo' where
    es: "foldM (edge_master_step (GetEdgeList mesh)) (fst st, True) (masters (GetEdgeList mesh)) = Some es"
    and fs: "foldM (face_master_step mesh (fst es)) (snd st, snd es) (masters (GetFaceList mesh)) = Some fs"
    and eo': "faces_to_edges mesh (fst fs) (fst es) = Some eo'"
    and res: "st' = (eo', fst fs)" "done = snd fs"
    unfolding propagate_pass_def by (auto split: bind_splits)
  have r1: "step_rel (fst st, True) es"
    using es by (rule foldM_rel) (auto intro: edge_master_step_rel step_rel_refl step_rel_trans)
  have r2: "step_rel (snd st, snd es) fs"
    using fs by (rule foldM_rel) (auto intro: face_master_step_rel step_rel_refl step_rel_trans)
  have r3: "masks_le (fst es) eo'" using eo' by (rule faces_to_edges_masks_le)
  have le1: "masks_le (fst st) (fst es)" using r1 by (simp add: step_rel_def)
  show e: "masks_le (fst st) (fst st')" using le1 r3 res by (auto intro: masks_le_trans)
  show f: "masks_le (snd st) (snd st')" using r2 res by (simp add: step_rel_def)
  have changed: "st' \<noteq> st" if nd: "\<not> done"
  proof (cases "fs = (snd st, snd es)")
    case True
    then have "\<not> snd es" using nd res by simp
    then have ne: "fst es \<noteq> fst st" using r1 by (auto simp: step_rel_def)
    have "eo' \<noteq> fst st"
    proof
      assume "eo' = fst st"
      then have "masks_le (fst es) (fst st)" using r3 by simp
      with le1 have "fst st = fst es" by (rule masks_le_antisym)
      with ne show False by simp
    qed
    then show ?thesis using res by (cases st) auto
  next
    case False
    then have "fst fs \<noteq> snd st" using r2 by (auto simp: step_rel_def)
    then show ?thesis using res by (cases st) auto
  qed
  then show "st' = st \<Longrightarrow> done" by blast
  show "st' \<noteq> st \<and> pair_weight st' < pair_weight st" if nd: "\<not> done"
  proof -
    have ne: "st' \<noteq> st" using changed nd by simp
    then have "fst st' \<noteq> fst st \<or> snd st' \<noteq> snd st" by (auto simp: prod_eq_iff)
    then have "pair_weight st' < pair_weight st"
      using weight_strict[OF e] weight_strict[OF f] weight_mono[OF e] weight_mono[OF f]
      unfolding pair_weight_def by (metis add_le_less_mono add_less_le_mono)
    with ne show ?thesis by simp
  qed
qed

text \<open>
  The \<^verbatim>\<open>do ... while (!done)\<close> loop. It terminates because a pass that leaves \<open>done\<close>
  false has enlarged a mask.
\<close>

function propagate ::
  "Mesh \<Rightarrow> 'a::len word list \<times> 'a word list \<Rightarrow> ('a word list \<times> 'a word list) option" where
  "propagate mesh st =
     (case propagate_pass mesh st of
        None \<Rightarrow> None
      | Some (st', done) \<Rightarrow> if done then Some st' else propagate mesh st')"
  by pat_completeness auto
termination
  by (relation "measure (\<lambda>(mesh, st). pair_weight st)")
     (auto dest: propagate_pass_props(4))

declare propagate.simps [simp del]


text \<open>
  Lines 2014-2034, for the element \<open>i\<close>: its order is turned into a mask, which is OR-ed
  into the masks of its edges and, in three dimensions, of its faces. An order outside
  \<open>0 .. MaxVarOrder\<close> (the highest bit of the mask) has no mask.
\<close>

definition element_masks ::
  "Mesh \<Rightarrow> int list \<Rightarrow> 'a::len word list \<times> 'a word list \<Rightarrow> int \<Rightarrow> ('a word list \<times> 'a word list) option" where
  "element_masks mesh orders st i =
     do {
       order \<leftarrow> elem_at orders i;
       if order < 0 \<or> order > int (LENGTH('a)) - 1 then None
       else do {
         let mask = push_bit (nat order) 1;
         edge_orders \<leftarrow> foldM (\<lambda>eo e. or_into eo e mask) (fst st) (GetElementEdges mesh i);
         face_orders \<leftarrow>
           (if Dimension mesh > 2
            then foldM (\<lambda>fo f. or_into fo f mask) (snd st) (GetElementFaces mesh i)
            else Some (snd st));
         Some (edge_orders, face_orders)
       }
     }"

text \<open>
  \<^verbatim>\<open>CalcEdgeFaceVarOrders\<close> (lines 2001-2104): the initial masks, the early return for
  relaxed conformity, and the propagation loop.
\<close>

definition CalcEdgeFaceVarOrders ::
  "Mesh \<Rightarrow> FiniteElementSpace \<Rightarrow> ('a::len word list \<times> 'a word list) option" where
  "CalcEdgeFaceVarOrders mesh fes =
     do {
       st \<leftarrow> foldM (element_masks mesh (elem_order fes))
               (replicate (nat (GetNEdges mesh)) 0, replicate (nat (GetNFaces mesh)) 0)
               [0..GetNE mesh - 1];
       if relaxed_hp fes then Some st else propagate mesh st
     }"

text \<open>
  A mesh whose indices are all inside the arrays: the masters, the slave ranges, the
  slaves, and the edges of the faces.
\<close>

definition master_ok :: "NCList \<Rightarrow> nat \<Rightarrow> Master \<Rightarrow> bool" where
  "master_ok list n master \<longleftrightarrow>
     0 \<le> index master \<and> index master < int n \<and>
     (\<forall>i \<in> set [slaves_begin master..slaves_end master - 1]. 0 \<le> i \<and> i < int (length (slaves list)))"

definition mesh_ok :: "Mesh \<Rightarrow> nat \<Rightarrow> nat \<Rightarrow> bool" where
  "mesh_ok mesh ne nf \<longleftrightarrow>
     (\<forall>m \<in> set (masters (GetEdgeList mesh)). master_ok (GetEdgeList mesh) ne m) \<and>
     (\<forall>s \<in> set (slaves (GetEdgeList mesh)). 0 \<le> s \<and> s < int ne) \<and>
     (\<forall>m \<in> set (masters (GetFaceList mesh)). master_ok (GetFaceList mesh) nf m) \<and>
     (\<forall>s \<in> set (slaves (GetFaceList mesh)). 0 \<le> s \<and> s < int nf \<and>
        (\<forall>e \<in> set (GetFaceEdges mesh s). 0 \<le> e \<and> e < int ne)) \<and>
     GetNFaces mesh \<le> int nf \<and>
     (\<forall>i \<in> set [0..GetNFaces mesh - 1]. \<forall>e \<in> set (GetFaceEdges mesh i). 0 \<le> e \<and> e < int ne)"

text \<open>
  The elements refer to existing edges and faces and their orders have a mask.
\<close>

definition elements_ok :: "Mesh \<Rightarrow> int list \<Rightarrow> int \<Rightarrow> bool" where
  "elements_ok mesh orders max_order \<longleftrightarrow>
     GetNE mesh \<le> int (length orders) \<and>
     (\<forall>i \<in> set [0..GetNE mesh - 1].
        0 \<le> orders ! nat i \<and> orders ! nat i \<le> max_order \<and>
        (\<forall>e \<in> set (GetElementEdges mesh i). 0 \<le> e \<and> e < GetNEdges mesh) \<and>
        (\<forall>f \<in> set (GetElementFaces mesh i). 2 < Dimension mesh \<longrightarrow> 0 \<le> f \<and> f < GetNFaces mesh))"

text \<open>
  A mesh to run the function on: three elements with one edge each, edge 0 being the
  master of the edges 1 and 2.
\<close>

definition example_mesh :: Mesh where
  "example_mesh =
     \<lparr> Dimension = 2, GetNE = 3, GetNEdges = 3, GetNFaces = 0,
       GetElementEdges = (\<lambda>i. [i]), GetElementFaces = (\<lambda>i. []), GetFaceEdges = (\<lambda>i. []),
       GetFaceEdgeOrientations = (\<lambda>i. []), GetFaceVertices = (\<lambda>i. []),
       GetFaceGeometry = (\<lambda>i. INVALID), GetEdgeVertices = (\<lambda>i. [i, i + 1]),
       GetEdgeList = \<lparr> masters = [\<lparr> index = 0, slaves_begin = 0, slaves_end = 2 \<rparr>], slaves = [1, 2] \<rparr>,
       GetFaceList = \<lparr> masters = [], slaves = [] \<rparr> \<rparr>"

section \<open>Locating the DOFs of edges and faces\<close>











section \<open>Updating the space\<close>

text \<open>
  \<^verbatim>\<open>Update\<close> (lines 2794-2885). \<open>mesh_sequence\<close> is \<^verbatim>\<open>mesh->GetSequence()\<close>.
  \<open>UpdateNURBS\<close> and \<open>rebuild\<close> stand for the work on the mesh that follows the checks:
  \<open>rebuild\<close> is lines 2819-2882 (saving the old table, updating the element orders,
  \<^verbatim>\<open>Destroy\<close>, \<^verbatim>\<open>Construct\<close>, the new element table and the transformation operator), which
  may itself abort.
\<close>

definition Update ::
  "(FiniteElementSpace \<Rightarrow> FiniteElementSpace) \<Rightarrow>
   (bool \<Rightarrow> FiniteElementSpace \<Rightarrow> error + FiniteElementSpace) \<Rightarrow>
   int \<Rightarrow> bool \<Rightarrow> FiniteElementSpace \<Rightarrow> error + FiniteElementSpace" where
  "Update UpdateNURBS rebuild mesh_sequence want_transform fes =
     (if mesh_sequence = sequence fes \<and> \<not> orders_changed fes then Inr fes
      else if want_transform \<and> mesh_sequence \<noteq> sequence fes + 1 then Inl Abort
      else if mesh_sequence \<noteq> sequence fes \<and> orders_changed fes then Inl Abort
      else if NURBSext fes then Inr ((UpdateNURBS fes) \<lparr> sequence := mesh_sequence \<rparr>)
      else (case rebuild want_transform fes of
              Inl e \<Rightarrow> Inl e
            | Inr fes' \<Rightarrow> Inr (fes' \<lparr> sequence := mesh_sequence \<rparr>)))"

section \<open>Properties\<close>

subsection \<open>Signed DOF encoding\<close>

lemma flip_is_negative: "(- 1 - d :: 'a::len word) <s 0 \<longleftrightarrow> 0 \<le>s d"
proof -
  have "(- 1 - d :: 'a word) = NOT d"
    by (simp add: not_eq_complement)
  moreover have "(NOT d <s 0) \<longleftrightarrow> (0 \<le>s d)"
    by (simp add: word_sle_eq word_sless_alt bit_last_iff [symmetric] bit_simps)
       (simp add: bit_last_iff not_less)
  ultimately show ?thesis by simp
qed

lemma nonneg_not_negative: "0 \<le>s (d :: 'a::len word) \<Longrightarrow> \<not> d <s 0"
  by (simp add: word_sle_eq word_sless_alt)

text \<open>
  C5: for every \<open>d \<ge> 0\<close> (as a 32-bit signed integer), decoding the flipped encoding
  \<open>-1-d\<close> gives \<open>d\<close> back, and decoding \<open>d\<close> itself gives \<open>d\<close>.
\<close>

theorem decode_encode_roundtrip:
  "0 \<le>s d \<Longrightarrow> decode_dof (encode_flip d) = d \<and> decode_dof d = d"
  by (simp add: decode_dof_def encode_flip_def flip_is_negative nonneg_not_negative)

theorem decode_encode_roundtrip_witness:
  "(0 :: 32 word) \<le>s 7 \<and> decode_dof (encode_flip 7) = 7 \<and> decode_dof 7 = 7
   \<and> encode_flip 7 = - 8"
proof -
  have h: "(0 :: 32 word) \<le>s 7" by (simp add: word_sle_eq)
  have e: "encode_flip 7 = - 8" by (simp add: encode_flip_def)
  show ?thesis using h e decode_encode_roundtrip [OF h] by simp
qed

subsection \<open>Component mapping\<close>

text \<open>
  C6: with \<open>ndofs = 5\<close> and \<open>vdim = 2\<close>, component 1 of DOF 3 is vdof 8 under node-major
  ordering and vdof 7 under component-major ordering; with \<open>vdim = 1\<close> the function
  returns \<open>dof\<close> unchanged, whatever the ordering and whatever \<^verbatim>\<open>Ordering::Map\<close> computes.
\<close>

theorem DofToVDof_component_mapping:
  "DofToVDof Ordering_Map (fes \<lparr> vdim := 2, ordering := byNODES, ndofs := 5 \<rparr>) 3 1 (- 1) = 8
   \<and> DofToVDof Ordering_Map (fes \<lparr> vdim := 2, ordering := byVDIM, ndofs := 5 \<rparr>) 3 1 (- 1) = 7
   \<and> (vdim fes' = 1 \<longrightarrow> DofToVDof M fes' dof vd nd = dof)"
  by (simp add: DofToVDof_def)

theorem DofToVDof_component_mapping_witness:
  "DofToVDof Ordering_Map (FiniteElementSpace_default \<lparr> vdim := 2, ordering := byNODES, ndofs := 5 \<rparr>) 3 1 (- 1) = 8
   \<and> DofToVDof Ordering_Map (FiniteElementSpace_default \<lparr> vdim := 2, ordering := byVDIM, ndofs := 5 \<rparr>) 3 1 (- 1) = 7
   \<and> vdim (FiniteElementSpace_default \<lparr> vdim := 1, ordering := byVDIM, ndofs := 5 \<rparr>) = 1
   \<and> DofToVDof Ordering_Map (FiniteElementSpace_default \<lparr> vdim := 1, ordering := byVDIM, ndofs := 5 \<rparr>) 3 0 (- 1) = 3"
  using DofToVDof_component_mapping
    [of FiniteElementSpace_default
        "FiniteElementSpace_default \<lparr> vdim := 1, ordering := byVDIM, ndofs := 5 \<rparr>"
        Ordering_Map 3 0 "- 1"]
  by simp

subsection \<open>Update when mesh and space are in sync\<close>

text \<open>
  C10: if the mesh's sequence number equals the stored one and no order change is
  pending, \<^verbatim>\<open>Update\<close> returns normally and the whole state of the space is the one
  before the call (so every member is unchanged), whatever \<open>want_transform\<close> is.
\<close>

theorem Update_in_sync_noop:
  "mesh_sequence = sequence fes \<Longrightarrow> \<not> orders_changed fes \<Longrightarrow>
   Update UpdateNURBS rebuild mesh_sequence want_transform fes = Inr fes"
  by (simp add: Update_def)

theorem Update_in_sync_noop_witness:
  "Update (\<lambda>s. s \<lparr> ndofs := 0 \<rparr>) (\<lambda>w s. Inl Abort) 4 True
     (FiniteElementSpace_default \<lparr> ndofs := 12, cP_is_set := True, sequence := 4 \<rparr>)
   = Inr (FiniteElementSpace_default \<lparr> ndofs := 12, cP_is_set := True, sequence := 4 \<rparr>)
   \<and> Update (\<lambda>s. s \<lparr> ndofs := 0 \<rparr>) (\<lambda>w s. Inl Abort) 5 True
     (FiniteElementSpace_default \<lparr> ndofs := 12, cP_is_set := True, sequence := 4 \<rparr>)
   = Inl Abort"
proof -
  let ?s = "FiniteElementSpace_default \<lparr> ndofs := 12, cP_is_set := True, sequence := 4 \<rparr>"
  have a: "4 = sequence ?s" by simp
  have b: "\<not> orders_changed ?s" by (simp add: FiniteElementSpace_default_def)
  have c: "Update (\<lambda>s. s \<lparr> ndofs := 0 \<rparr>) (\<lambda>w s. Inl Abort) 5 True ?s = Inl Abort"
    by (simp add: Update_def FiniteElementSpace_default_def)
  show ?thesis using Update_in_sync_noop [OF a b] c by simp
qed

subsection \<open>Marker round trip\<close>

lemma ListToMarker_loop_marks:
  "\<forall>k \<in> set ks. k < length m \<Longrightarrow>
   ListToMarker_loop (map int ks) mv m =
     Inr (map (\<lambda>i. if i \<in> set ks then mv else m ! i) [0..<length m])"
proof (induction ks arbitrary: m)
  case Nil
  then show ?case by (simp add: map_nth)
next
  case (Cons k ks)
  have "ListToMarker_loop (map int (k # ks)) mv m = ListToMarker_loop (map int ks) mv (m[k := mv])"
    using Cons.prems by simp
  also have "\<dots> = Inr (map (\<lambda>i. if i \<in> set ks then mv else m[k := mv] ! i) [0..<length (m[k := mv])])"
    using Cons.prems by (intro Cons.IH) simp
  also have "\<dots> = Inr (map (\<lambda>i. if i \<in> set (k # ks) then mv else m ! i) [0..<length m])"
    by (auto simp: nth_list_update)
  finally show ?case .
qed

lemma concat_map_if_filter:
  "concat (map (\<lambda>i. if P i then [f i] else []) xs) = map f (filter P xs)"
  by (induction xs) simp_all

lemma MarkerToList_filter:
  "MarkerToList marker = map int (filter (\<lambda>i. marker ! i \<noteq> 0) [0..<length marker])"
  by (simp add: MarkerToList_def concat_map_if_filter)

lemma ListToMarker_MarkerToList:
  "ListToMarker (MarkerToList marker) (int (length marker)) mv
   = Inr (map (\<lambda>x. if x \<noteq> 0 then mv else 0) marker)"
proof -
  define ks where "ks = filter (\<lambda>i. marker ! i \<noteq> 0) [0..<length marker]"
  define z where "z = replicate (length marker) (0::int)"
  have len: "length z = length marker" by (simp add: z_def)
  have bound: "\<forall>k \<in> set ks. k < length z" by (simp add: ks_def len)
  have "ListToMarker (MarkerToList marker) (int (length marker)) mv
        = ListToMarker_loop (map int ks) mv z"
    by (simp add: ListToMarker_def MarkerToList_filter ks_def z_def)
  also have "\<dots> = Inr (map (\<lambda>i. if i \<in> set ks then mv else z ! i) [0..<length z])"
    using bound by (rule ListToMarker_loop_marks)
  also have "map (\<lambda>i. if i \<in> set ks then mv else z ! i) [0..<length z]
             = map (\<lambda>x. if x \<noteq> 0 then mv else 0) marker"
    by (rule nth_equalityI) (auto simp: len ks_def z_def)
  finally show ?thesis .
qed

lemma MarkerToList_increasing:
  "sorted (MarkerToList marker) \<and> distinct (MarkerToList marker) \<and>
   set (MarkerToList marker) = {int i | i. i < length marker \<and> marker ! i \<noteq> 0}"
  by (auto simp: MarkerToList_filter sorted_map distinct_map inj_on_def sorted_wrt_filter
      intro!: sorted_wrt_mono_rel[of _ "(<)"] sorted_wrt_filter)

text \<open>
  C7, as stated, fails: \<^verbatim>\<open>ListToMarker\<close> writes \<open>mark_val\<close>, not 1, so a marker of zeros
  and ones comes back entry by entry only when the mark value is 1. Here the marker
  \<open>[0, 1]\<close> comes back as \<open>[0, -1]\<close> for the mark value \<open>-1\<close>.
\<close>

theorem marker_roundtrip_counterexample:
  "ListToMarker (MarkerToList [0, 1]) 2 (- 1) = Inr [0, - 1]
   \<and> ListToMarker (MarkerToList [0, 1]) 2 (- 1) \<noteq> Inr [0, 1]"
  by (simp add: ListToMarker_def MarkerToList_def numeral_2_eq_2)

text \<open>
  C7, amended: \<^verbatim>\<open>MarkerToList\<close> collects, in increasing order and without repetition,
  exactly the indices holding nonzero entries; \<^verbatim>\<open>ListToMarker\<close> over that list with the
  original size returns normally with \<open>mark_val\<close> at exactly those indices and 0
  elsewhere. So for a marker of zeros and ones the round trip reproduces the marker
  when \<open>mark_val\<close> is 1.
\<close>

theorem marker_roundtrip:
  "sorted (MarkerToList marker) \<and> distinct (MarkerToList marker)
   \<and> set (MarkerToList marker) = {int i | i. i < length marker \<and> marker ! i \<noteq> 0}
   \<and> ListToMarker (MarkerToList marker) (int (length marker)) mark_val
       = Inr (map (\<lambda>x. if x \<noteq> 0 then mark_val else 0) marker)
   \<and> ((\<forall>x \<in> set marker. x = 0 \<or> x = 1) \<longrightarrow>
        ListToMarker (MarkerToList marker) (int (length marker)) 1 = Inr marker)"
proof -
  have "map (\<lambda>x. if x \<noteq> 0 then 1 else 0) marker = marker"
    if "\<forall>x \<in> set marker. x = 0 \<or> x = 1"
    using that by (induction marker) auto
  then show ?thesis
    using MarkerToList_increasing [of marker] by (simp add: ListToMarker_MarkerToList)
qed

theorem marker_roundtrip_witness:
  "ListToMarker (MarkerToList [0, 1, 1, 0]) 4 1 = Inr [0, 1, 1, 0]
   \<and> ListToMarker (MarkerToList [0, 1, 1, 0]) 4 5 = Inr [0, 5, 5, 0]"
  using marker_roundtrip [of "[0, 1, 1, 0]" 5] by simp

subsection \<open>Entries recorded by AddDependencies\<close>

lemma master_loop:
  "foldl (AddDependencies_master Add master_dofs sdof Ii) deps [0..<n]
   = apply_Adds Add deps
       (map (\<lambda>j. (sdof, master_dofs ! j, Ii j)) (filter (recordable master_dofs sdof Ii) [0..<n]))"
  by (induction n)
     (simp_all add: AddDependencies_master_def apply_Adds_def recordable_def Let_def)

lemma apply_Adds_append:
  "apply_Adds Add (apply_Adds Add deps xs) ys = apply_Adds Add deps (xs @ ys)"
  by (simp add: apply_Adds_def)

lemma slave_step:
  "AddDependencies_slave RowSize Add master_dofs slave_dofs I deps i
   = apply_Adds Add deps (row_entries RowSize deps master_dofs slave_dofs I i)"
  by (simp add: AddDependencies_slave_def row_entries_def master_loop Let_def apply_Adds_def)

lemma slave_loop:
  "a \<le> b \<Longrightarrow> foldl (AddDependencies_slave RowSize Add master_dofs slave_dofs I) deps [a..<b]
   = apply_Adds Add deps
       (concat (map (\<lambda>i. row_entries RowSize
                      (foldl (AddDependencies_slave RowSize Add master_dofs slave_dofs I) deps [a..<i])
                      master_dofs slave_dofs I i) [a..<b]))"
proof (induction b)
  case 0
  then show ?case by (simp add: apply_Adds_def)
next
  case (Suc b)
  show ?case
  proof (cases "a = Suc b")
    case True
    then show ?thesis by (simp add: apply_Adds_def)
  next
    case False
    with Suc.prems have ab: "a \<le> b" by simp
    show ?thesis using ab Suc.IH[OF ab] by (simp add: slave_step apply_Adds_append)
  qed
qed

lemma slave_prefix:
  "b \<le> length slave_dofs \<Longrightarrow>
   foldl (AddDependencies_slave RowSize Add master_dofs (take b slave_dofs) I) deps [a..<b]
   = foldl (AddDependencies_slave RowSize Add master_dofs slave_dofs I) deps [a..<b]"
  by (rule foldl_cong) (simp_all add: AddDependencies_slave_def)

lemma before_row:
  "i \<le> length slave_dofs \<Longrightarrow>
   AddDependencies RowSize Add deps master_dofs (take i slave_dofs) I skipfirst
   = foldl (AddDependencies_slave RowSize Add master_dofs slave_dofs I) deps [skipfirst..<i]"
  by (simp add: AddDependencies_def slave_prefix min_def)

lemma AddDependencies_new:
  "AddDependencies RowSize Add deps master_dofs slave_dofs I skipfirst
   = apply_Adds Add deps
       (concat (map (\<lambda>i. row_entries RowSize
                      (AddDependencies RowSize Add deps master_dofs (take i slave_dofs) I skipfirst)
                      master_dofs slave_dofs I i) [skipfirst..<length slave_dofs]))"
proof (cases "skipfirst \<le> length slave_dofs")
  case True
  have M: "map (\<lambda>i. row_entries RowSize
                  (AddDependencies RowSize Add deps master_dofs (take i slave_dofs) I skipfirst)
                  master_dofs slave_dofs I i) [skipfirst..<length slave_dofs]
      = map (\<lambda>i. row_entries RowSize
                  (foldl (AddDependencies_slave RowSize Add master_dofs slave_dofs I) deps [skipfirst..<i])
                  master_dofs slave_dofs I i) [skipfirst..<length slave_dofs]"
    by (rule map_cong) (simp_all add: before_row)
  have A: "AddDependencies RowSize Add deps master_dofs slave_dofs I skipfirst
           = foldl (AddDependencies_slave RowSize Add master_dofs slave_dofs I) deps
               [skipfirst..<length slave_dofs]"
    by (simp add: AddDependencies_def)
  show ?thesis
    unfolding M A by (rule slave_loop[OF True])
next
  case False
  then show ?thesis by (simp add: AddDependencies_def apply_Adds_def)
qed

text \<open>
  C3: what \<^verbatim>\<open>AddDependencies\<close> does to \<open>deps\<close> is a sequence \<open>new\<close> of \<^verbatim>\<open>Add\<close> calls, and
  the entry \<open>(sdof, mdof, coef)\<close> is among them exactly when, for some row \<open>i\<close> and
  column \<open>j\<close>: \<open>i \<ge> skipfirst\<close>, \<open>sdof = slave_dofs[i]\<close>, \<open>mdof = master_dofs[j]\<close>,
  \<open>coef = I(i,j)\<close>, the row of \<open>sdof\<close> is empty when the loop reaches \<open>i\<close> (the state then
  is the one the function reaches on the first \<open>i\<close> slave DOFs), \<open>|coef| > 1e-12\<close>, and
  \<open>mdof\<close> is neither \<open>sdof\<close> nor \<open>-1-sdof\<close>. This holds whatever the sparse matrix class
  does in \<^verbatim>\<open>RowSize\<close> and \<^verbatim>\<open>Add\<close>.
\<close>

theorem AddDependencies_records:
  "\<exists>new. AddDependencies RowSize Add deps master_dofs slave_dofs I skipfirst
            = apply_Adds Add deps new \<and>
     (\<forall>sdof mdof coef. (sdof, mdof, coef) \<in> set new \<longleftrightarrow>
        (\<exists>i j. skipfirst \<le> i \<and> i < length slave_dofs \<and> j < length master_dofs \<and>
               sdof = slave_dofs ! i \<and> mdof = master_dofs ! j \<and> coef = I i j \<and>
               RowSize (AddDependencies RowSize Add deps master_dofs (take i slave_dofs) I skipfirst)
                 sdof = 0 \<and>
               \<bar>coef\<bar> > 1 / 10 ^ 12 \<and> mdof \<noteq> sdof \<and> mdof \<noteq> - 1 - sdof))"
proof -
  let ?new = "concat (map (\<lambda>i. row_entries RowSize
                      (AddDependencies RowSize Add deps master_dofs (take i slave_dofs) I skipfirst)
                      master_dofs slave_dofs I i) [skipfirst..<length slave_dofs])"
  have "AddDependencies RowSize Add deps master_dofs slave_dofs I skipfirst
        = apply_Adds Add deps ?new"
    by (rule AddDependencies_new)
  moreover have "(sdof, mdof, coef) \<in> set ?new \<longleftrightarrow>
        (\<exists>i j. skipfirst \<le> i \<and> i < length slave_dofs \<and> j < length master_dofs \<and>
               sdof = slave_dofs ! i \<and> mdof = master_dofs ! j \<and> coef = I i j \<and>
               RowSize (AddDependencies RowSize Add deps master_dofs (take i slave_dofs) I skipfirst)
                 sdof = 0 \<and>
               \<bar>coef\<bar> > 1 / 10 ^ 12 \<and> mdof \<noteq> sdof \<and> mdof \<noteq> - 1 - sdof)" for sdof mdof coef
    by (auto simp: row_entries_def recordable_def split: if_splits)
  ultimately show ?thesis by blast
qed

theorem AddDependencies_records_witness:
  "AddDependencies triplet_RowSize triplet_Add [] [10, 11, 5, 12] [5, 6, 5] example_I 0
     = [(5, 10, 1 / 2), (5, 12, 1 / 2), (6, 10, 1), (6, 5, 1), (6, 12, 1)]
   \<and> AddDependencies triplet_RowSize triplet_Add [] [10, 11, - 6, 12] [5, 5] example_I 0
     = [(5, 10, 1 / 2), (5, 12, 1 / 2)]
   \<and> (\<exists>new. AddDependencies triplet_RowSize triplet_Add [] [10, 11, 5, 12] [5, 6, 5] example_I 0
            = apply_Adds triplet_Add [] new \<and>
     (\<forall>sdof mdof coef. (sdof, mdof, coef) \<in> set new \<longleftrightarrow>
        (\<exists>i j. 0 \<le> i \<and> i < length [5, 6, 5 :: int] \<and> j < length [10, 11, 5, 12 :: int] \<and>
               sdof = [5, 6, 5] ! i \<and> mdof = [10, 11, 5, 12] ! j \<and> coef = example_I i j \<and>
               triplet_RowSize (AddDependencies triplet_RowSize triplet_Add [] [10, 11, 5, 12]
                                  (take i [5, 6, 5]) example_I 0) sdof = 0 \<and>
               \<bar>coef\<bar> > 1 / 10 ^ 12 \<and> mdof \<noteq> sdof \<and> mdof \<noteq> - 1 - sdof)))"
proof (intro conjI)
  show "AddDependencies triplet_RowSize triplet_Add [] [10, 11, 5, 12] [5, 6, 5] example_I 0
     = [(5, 10, 1 / 2), (5, 12, 1 / 2), (6, 10, 1), (6, 5, 1), (6, 12, 1)]"
    by code_simp
  show "AddDependencies triplet_RowSize triplet_Add [] [10, 11, - 6, 12] [5, 5] example_I 0
     = [(5, 10, 1 / 2), (5, 12, 1 / 2)]"
    by code_simp
  show "\<exists>new. AddDependencies triplet_RowSize triplet_Add [] [10, 11, 5, 12] [5, 6, 5] example_I 0
            = apply_Adds triplet_Add [] new \<and>
     (\<forall>sdof mdof coef. (sdof, mdof, coef) \<in> set new \<longleftrightarrow>
        (\<exists>i j. 0 \<le> i \<and> i < length [5, 6, 5 :: int] \<and> j < length [10, 11, 5, 12 :: int] \<and>
               sdof = [5, 6, 5] ! i \<and> mdof = [10, 11, 5, 12] ! j \<and> coef = example_I i j \<and>
               triplet_RowSize (AddDependencies triplet_RowSize triplet_Add [] [10, 11, 5, 12]
                                  (take i [5, 6, 5]) example_I 0) sdof = 0 \<and>
               \<bar>coef\<bar> > 1 / 10 ^ 12 \<and> mdof \<noteq> sdof \<and> mdof \<noteq> - 1 - sdof))"
    by (rule AddDependencies_records)
qed

subsection \<open>Conforming interpolation: resolution of the dependencies\<close>

lemma identity_row_finalized:
  "ib_finalized (identity_row deps sped s i)
   = (if SparseMatrix_RowSize deps i = 0 then (ib_finalized s)[i := True] else ib_finalized s)"
  by (simp add: identity_row_def)

lemma identity_fold_finalized:
  "k \<le> n \<Longrightarrow> ib_finalized s = replicate n False \<Longrightarrow>
   ib_finalized (foldl (identity_row deps sped) s [0..<k])
   = map (\<lambda>i. i < k \<and> SparseMatrix_RowSize deps i = 0) [0..<n]"
proof (induction k)
  case 0
  then show ?case by (simp add: list_eq_iff_nth_eq)
next
  case (Suc k)
  then have IH: "ib_finalized (foldl (identity_row deps sped) s [0..<k])
                 = map (\<lambda>i. i < k \<and> SparseMatrix_RowSize deps i = 0) [0..<n]" by simp
  show ?case
    using Suc.prems
    by (auto simp: identity_row_finalized IH list_eq_iff_nth_eq nth_list_update less_Suc_eq)
qed

lemma identity_rows_finalized:
  "ib_finalized (identity_rows variable_order deps sped n n_true_dofs)
   = map (\<lambda>i. SparseMatrix_RowSize deps i = 0) [0..<n]"
  unfolding identity_rows_def
  by (subst identity_fold_finalized[where n = n]) (simp_all cong: map_cong)

lemma unfinalized_map:
  "unfinalized (map P xs) + length (filter P xs) = length xs"
  unfolding unfinalized_def by (induction xs) auto

lemma unfinalized_zero: "unfinalized fin = 0 \<longleftrightarrow> (\<forall>i < length fin. fin ! i)"
  unfolding unfinalized_def
  by (metis (mono_tags, lifting) filter_False filter_empty_conv in_set_conv_nth length_0_conv)

lemma finalize_pass_finished:
  assumes "finished (finalize_pass deps s)"
  shows "finalize_pass deps s = s \<lparr> finished := True \<rparr>"
    and "\<forall>dof < length (finalized s). \<not> (\<not> finalized s ! dof \<and> DofFinalizable dof (finalized s) deps)"
  using finalize_fold_finished[of deps "s\<lparr>finished := True\<rparr>" "[0..<length (finalized s)]"] assms
  by (simp_all add: finalize_pass_def)

lemma finalize_loop_result:
  "finished (finalize_loop deps s) \<and>
   length (finalized (finalize_loop deps s)) = length (finalized s) \<and>
   n_finalized (finalize_loop deps s) + int (unfinalized (finalized (finalize_loop deps s)))
     = n_finalized s + int (unfinalized (finalized s)) \<and>
   (\<forall>dof < length (finalized s).
      \<not> (\<not> finalized (finalize_loop deps s) ! dof \<and>
         DofFinalizable dof (finalized (finalize_loop deps s)) deps))"
proof (induction deps s rule: finalize_loop.induct)
  case (1 deps s)
  let ?p = "finalize_pass deps s"
  show ?case
  proof (cases "finished ?p")
    case True
    then have r: "finalize_loop deps s = ?p" by (subst finalize_loop.simps) (simp add: Let_def)
    from finalize_pass_finished[OF True] have "finalized ?p = finalized s"
      and "\<forall>dof < length (finalized s). \<not> (\<not> finalized s ! dof \<and> DofFinalizable dof (finalized s) deps)"
      by simp_all
    then show ?thesis using True finalize_pass_count[of deps s] by (simp add: r)
  next
    case False
    then have r: "finalize_loop deps s = finalize_loop deps ?p"
      by (subst finalize_loop.simps) (simp add: Let_def)
    from "1.IH"[OF refl False] show ?thesis
      using finalize_pass_count[of deps s] finalize_pass_length[of deps s] by (simp add: r)
  qed
qed

lemma final_state_count:
  "n_finalized (final_state variable_order deps sped n)
     + int (unfinalized (finalized (final_state variable_order deps sped n))) = int n"
  and final_state_length: "length (finalized (final_state variable_order deps sped n)) = n"
proof -
  define nt where "nt = length (filter (\<lambda>i. SparseMatrix_RowSize deps i = 0) [0..<n])"
  define s0 where "s0 = finalization_start (identity_rows variable_order deps sped n nt) nt"
  have fs: "final_state variable_order deps sped n = finalize_loop deps s0"
    by (simp add: final_state_def nt_def s0_def Let_def)
  have f0: "finalized s0 = map (\<lambda>i. SparseMatrix_RowSize deps i = 0) [0..<n]"
    by (simp add: s0_def finalization_start_def identity_rows_finalized)
  have n0: "n_finalized s0 = int nt" by (simp add: s0_def finalization_start_def)
  have "unfinalized (finalized s0) + nt = n"
    unfolding f0 nt_def using unfinalized_map[of "\<lambda>i. SparseMatrix_RowSize deps i = 0" "[0..<n]"] by simp
  then have "n_finalized s0 + int (unfinalized (finalized s0)) = int n" using n0 by simp
  then show "n_finalized (final_state variable_order deps sped n)
     + int (unfinalized (finalized (final_state variable_order deps sped n))) = int n"
    using finalize_loop_result[of deps s0] by (simp add: fs)
  show "length (finalized (final_state variable_order deps sped n)) = n"
    using finalize_loop_result[of deps s0] by (simp add: fs f0)
qed

lemma final_state_all_finalized:
  "n_finalized (final_state variable_order deps sped n) = int n \<longleftrightarrow>
   (\<forall>i < n. finalized (final_state variable_order deps sped n) ! i)"
  using final_state_count[of variable_order deps sped n] final_state_length[of variable_order deps sped n]
    unfinalized_zero[of "finalized (final_state variable_order deps sped n)"]
  by auto

lemma count_all_true:
  "length (filter P [0..<n]) = n \<longleftrightarrow> (\<forall>i < n. P i)"
proof -
  have "length (filter P [0..<n]) = length [0..<n] \<longleftrightarrow> (\<forall>i \<in> set [0..<n]. P i)"
    by (metis filter_True filter_id_conv length_filter_less less_irrefl_nat)
  then show ?thesis by auto
qed

lemma Build_all_true:
  assumes "\<not> cP_is_set fes" and "0 \<le> ndofs fes"
    and "\<forall>i < nat (ndofs fes). SparseMatrix_RowSize deps i = 0"
  shows "BuildConformingInterpolation Map variable_order deps sped fes
         = Inr (fes \<lparr> cP_is_set := True, cP := None, cR := None, cQ := None \<rparr>)"
proof -
  let ?n = "nat (ndofs fes)"
  let ?nt = "length (filter (\<lambda>i. SparseMatrix_RowSize deps i = 0) [0..<?n])"
  have eq: "int ?nt = ndofs fes \<longleftrightarrow> (\<forall>i < ?n. SparseMatrix_RowSize deps i = 0)"
    using assms(2) count_all_true[of "\<lambda>i. SparseMatrix_RowSize deps i = 0" ?n] by auto
  show ?thesis
    using assms(1,3) eq
    by (auto simp: BuildConformingInterpolation_def Let_def)
qed

lemma Build_abort:
  assumes "\<not> cP_is_set fes" and "0 \<le> ndofs fes"
    and "\<not> (\<forall>i < nat (ndofs fes). SparseMatrix_RowSize deps i = 0)"
    and "n_finalized (final_state variable_order deps sped (nat (ndofs fes))) \<noteq> ndofs fes"
  shows "BuildConformingInterpolation Map variable_order deps sped fes = Inl Abort"
proof -
  let ?n = "nat (ndofs fes)"
  let ?nt = "length (filter (\<lambda>i. SparseMatrix_RowSize deps i = 0) [0..<?n])"
  have eq: "int ?nt = ndofs fes \<longleftrightarrow> (\<forall>i < ?n. SparseMatrix_RowSize deps i = 0)"
    using assms(2) count_all_true[of "\<lambda>i. SparseMatrix_RowSize deps i = 0" ?n] by auto
  show ?thesis
    using assms(1,3,4) eq
    by (auto simp: BuildConformingInterpolation_def final_state_def Let_def)
qed

lemma Build_success:
  assumes "\<not> cP_is_set fes" and "0 \<le> ndofs fes"
    and "\<not> (\<forall>i < nat (ndofs fes). SparseMatrix_RowSize deps i = 0)"
    and "n_finalized (final_state variable_order deps sped (nat (ndofs fes))) = ndofs fes"
  shows "\<exists>fes'. BuildConformingInterpolation Map variable_order deps sped fes = Inr fes' \<and>
           cP_is_set fes' \<and>
           cP fes' = Some (if vdim fes > 1
                           then MakeVDimMatrix Map fes (cP_mat (final_state variable_order deps sped (nat (ndofs fes))))
                           else cP_mat (final_state variable_order deps sped (nat (ndofs fes)))) \<and>
           cR fes' \<noteq> None"
proof -
  let ?n = "nat (ndofs fes)"
  let ?nt = "length (filter (\<lambda>i. SparseMatrix_RowSize deps i = 0) [0..<?n])"
  have eq: "int ?nt = ndofs fes \<longleftrightarrow> (\<forall>i < ?n. SparseMatrix_RowSize deps i = 0)"
    using assms(2) count_all_true[of "\<lambda>i. SparseMatrix_RowSize deps i = 0" ?n] by auto
  show ?thesis
    using assms(1,3,4) eq
    by (auto simp: BuildConformingInterpolation_def final_state_def Let_def)
qed

text \<open>
  C1: the resolution loop terminates (\<open>finalize_loop\<close> is a total function: every pass
  that does not end the loop finalizes at least one more DOF). It ends at a fixed point,
  where no unfinalized DOF is finalizable, and there \<open>n_finalized = ndofs\<close> holds exactly
  when every DOF is finalized. \<^verbatim>\<open>BuildConformingInterpolation\<close> then either aborts (some
  DOF is not finalized) or returns; when it returns a matrix \<open>cP\<close>, every one of the
  \<open>ndofs\<close> DOFs is finalized.
\<close>

theorem finalization_all_or_abort:
  assumes "\<not> cP_is_set fes" and "0 \<le> ndofs fes"
  shows
   "(\<not> finished (finalize_pass deps s) \<longrightarrow>
       unfinalized (finalized (finalize_pass deps s)) < unfinalized (finalized s))
    \<and> finished (finalize_loop deps s)
    \<and> (\<forall>dof < length (finalized s).
          \<not> finalized (finalize_loop deps s) ! dof \<longrightarrow>
          \<not> DofFinalizable dof (finalized (finalize_loop deps s)) deps)
    \<and> (n_finalized (final_state variable_order deps sped (nat (ndofs fes))) = ndofs fes \<longleftrightarrow>
        (\<forall>i < nat (ndofs fes). finalized (final_state variable_order deps sped (nat (ndofs fes))) ! i))
    \<and> (BuildConformingInterpolation Map variable_order deps sped fes = Inl Abort
          \<and> n_finalized (final_state variable_order deps sped (nat (ndofs fes))) \<noteq> ndofs fes
        \<or> (\<exists>fes'. BuildConformingInterpolation Map variable_order deps sped fes = Inr fes' \<and>
              cP_is_set fes' \<and>
              (cP fes' = None \<and> (\<forall>i < nat (ndofs fes). SparseMatrix_RowSize deps i = 0)
               \<or> cP fes' =
                   Some (if vdim fes > 1
                         then MakeVDimMatrix Map fes
                                (cP_mat (final_state variable_order deps sped (nat (ndofs fes))))
                         else cP_mat (final_state variable_order deps sped (nat (ndofs fes)))) \<and>
                 n_finalized (final_state variable_order deps sped (nat (ndofs fes))) = ndofs fes \<and>
                 (\<forall>i < nat (ndofs fes).
                    finalized (final_state variable_order deps sped (nat (ndofs fes))) ! i))))"
proof (intro conjI)
  show "\<not> finished (finalize_pass deps s) \<longrightarrow>
       unfinalized (finalized (finalize_pass deps s)) < unfinalized (finalized s)"
    by (simp add: finalize_pass_decreases)
  show "finished (finalize_loop deps s)"
    using finalize_loop_result[of deps s] by simp
  show "\<forall>dof < length (finalized s).
          \<not> finalized (finalize_loop deps s) ! dof \<longrightarrow>
          \<not> DofFinalizable dof (finalized (finalize_loop deps s)) deps"
    using finalize_loop_result[of deps s] by blast
  let ?n = "nat (ndofs fes)"
  let ?f = "final_state variable_order deps sped ?n"
  show all: "n_finalized ?f = ndofs fes \<longleftrightarrow> (\<forall>i < ?n. finalized ?f ! i)"
    using final_state_all_finalized[of variable_order deps sped ?n] assms(2) by simp
  show "BuildConformingInterpolation Map variable_order deps sped fes = Inl Abort
          \<and> n_finalized ?f \<noteq> ndofs fes
        \<or> (\<exists>fes'. BuildConformingInterpolation Map variable_order deps sped fes = Inr fes' \<and>
              cP_is_set fes' \<and>
              (cP fes' = None \<and> (\<forall>i < ?n. SparseMatrix_RowSize deps i = 0)
               \<or> cP fes' =
                   Some (if vdim fes > 1 then MakeVDimMatrix Map fes (cP_mat ?f) else cP_mat ?f) \<and>
                 n_finalized ?f = ndofs fes \<and> (\<forall>i < ?n. finalized ?f ! i)))"
  proof (cases "\<forall>i < ?n. SparseMatrix_RowSize deps i = 0")
    case True
    then show ?thesis
      using Build_all_true[OF assms True, of Map variable_order sped] by simp
  next
    case nt: False
    show ?thesis
    proof (cases "n_finalized ?f = ndofs fes")
      case True
      from Build_success[OF assms nt True, of Map] all True show ?thesis by auto
    next
      case False
      then show ?thesis
        using Build_abort[OF assms nt False, of Map] by simp
    qed
  qed
qed

text \<open>
  C2: if every row of the dependency matrix is empty when the build runs, it leaves
  \<open>cP\<close>, \<open>cR\<close> and \<open>cQ\<close> absent, \<^verbatim>\<open>GetConformingProlongation\<close> and
  \<^verbatim>\<open>GetConformingRestriction\<close> return the null pointer normally, and the caller
  \<^verbatim>\<open>ConvertToConformingVDofs\<close> treats the absent \<open>cP\<close> as the identity.
\<close>

theorem all_true_dofs_operators_absent:
  assumes "\<not> cP_is_set fes" and "0 \<le> ndofs fes"
    and "\<forall>i < nat (ndofs fes). SparseMatrix_RowSize deps i = 0"
    and "conforming \<longrightarrow> cP fes = None"
  shows
   "BuildConformingInterpolation Map variable_order deps sped fes
      = Inr (fes \<lparr> cP_is_set := True, cP := None, cR := None, cQ := None \<rparr>)
    \<and> (\<exists>fes'. GetConformingProlongation conforming Map variable_order deps sped fes = Inr (None, fes'))
    \<and> (\<exists>fes'. GetConformingRestriction conforming Map variable_order deps sped fes = Inr (None, fes'))
    \<and> (\<exists>fes'. ConvertToConformingVDofs BooleanMultTranspose conforming Map variable_order deps sped fes dofs
                = Inr (dofs, fes'))"
proof -
  have b: "BuildConformingInterpolation Map variable_order deps sped fes
      = Inr (fes \<lparr> cP_is_set := True, cP := None, cR := None, cQ := None \<rparr>)"
    by (rule Build_all_true[OF assms(1,2,3)])
  show ?thesis
    using assms(1,4) b
    by (auto simp: GetConformingProlongation_def GetConformingRestriction_def
                   ConvertToConformingVDofs_def)
qed

theorem finalization_all_or_abort_witness:
  "BuildConformingInterpolation Ordering_Map False example_deps (new_SparseMatrix 4 4)
     (FiniteElementSpace_default \<lparr> vdim := 1, ndofs := 4 \<rparr>)
   = Inr (FiniteElementSpace_default
           \<lparr> vdim := 1, ndofs := 4,
             cP := Some \<lparr> Width = 2,
                          Rows = [[(0, 1)], [(0, 1 / 2), (1, 1 / 2)], [(1, 1)], [(0, 1 / 4), (1, 3 / 4)]] \<rparr>,
             cR := Some \<lparr> Width = 4, Rows = [[(0, 1)], [(2, 1)]] \<rparr>,
             cP_is_set := True \<rparr>)
   \<and> finalized (final_state False example_deps (new_SparseMatrix 4 4) 4) = [True, True, True, True]
   \<and> BuildConformingInterpolation Ordering_Map False example_cyclic_deps (new_SparseMatrix 3 3)
     (FiniteElementSpace_default \<lparr> vdim := 1, ndofs := 3 \<rparr>) = Inl Abort
   \<and> finalized (final_state False example_cyclic_deps (new_SparseMatrix 3 3) 3) = [True, False, False]
   \<and> n_finalized (final_state False example_cyclic_deps (new_SparseMatrix 3 3) 3) = 1"
proof -
  let ?f4 = "FiniteElementSpace_default \<lparr> vdim := 1, ndofs := 4 \<rparr>"
  have a: "\<not> cP_is_set ?f4" by (simp add: FiniteElementSpace_default_def)
  have b: "0 \<le> ndofs ?f4" by simp
  have e1: "BuildConformingInterpolation Ordering_Map False example_deps (new_SparseMatrix 4 4) ?f4
   = Inr (FiniteElementSpace_default
           \<lparr> vdim := 1, ndofs := 4,
             cP := Some \<lparr> Width = 2,
                          Rows = [[(0, 1)], [(0, 1 / 2), (1, 1 / 2)], [(1, 1)], [(0, 1 / 4), (1, 3 / 4)]] \<rparr>,
             cR := Some \<lparr> Width = 4, Rows = [[(0, 1)], [(2, 1)]] \<rparr>,
             cP_is_set := True \<rparr>)"
    by code_simp
  have e2: "finalized (final_state False example_deps (new_SparseMatrix 4 4) 4) = [True, True, True, True]"
    by code_simp
  have e3: "BuildConformingInterpolation Ordering_Map False example_cyclic_deps (new_SparseMatrix 3 3)
     (FiniteElementSpace_default \<lparr> vdim := 1, ndofs := 3 \<rparr>) = Inl Abort"
    by code_simp
  have e4: "finalized (final_state False example_cyclic_deps (new_SparseMatrix 3 3) 3) = [True, False, False]"
    by code_simp
  have e5: "n_finalized (final_state False example_cyclic_deps (new_SparseMatrix 3 3) 3) = 1"
    by code_simp
  from finalization_all_or_abort[OF a b, of example_deps
       "finalization_start (identity_rows False example_deps (new_SparseMatrix 4 4) 4 2) 2"
       False "new_SparseMatrix 4 4" Ordering_Map]
  have "finished (finalize_loop example_deps
          (finalization_start (identity_rows False example_deps (new_SparseMatrix 4 4) 4 2) 2))"
    by blast
  with e1 e2 e3 e4 e5 show ?thesis by blast
qed

theorem all_true_dofs_operators_absent_witness:
  "BuildConformingInterpolation Ordering_Map True (new_SparseMatrix 3 3) (new_SparseMatrix 3 3)
     (FiniteElementSpace_default \<lparr> vdim := 2, ndofs := 3 \<rparr>)
   = Inr (FiniteElementSpace_default \<lparr> vdim := 2, ndofs := 3, cP_is_set := True \<rparr>)
   \<and> GetConformingProlongation False Ordering_Map True (new_SparseMatrix 3 3) (new_SparseMatrix 3 3)
     (FiniteElementSpace_default \<lparr> vdim := 2, ndofs := 3 \<rparr>)
   = Inr (None, FiniteElementSpace_default \<lparr> vdim := 2, ndofs := 3, cP_is_set := True \<rparr>)
   \<and> GetConformingRestriction False Ordering_Map True (new_SparseMatrix 3 3) (new_SparseMatrix 3 3)
     (FiniteElementSpace_default \<lparr> vdim := 2, ndofs := 3 \<rparr>)
   = Inr (None, FiniteElementSpace_default \<lparr> vdim := 2, ndofs := 3, cP_is_set := True \<rparr>)
   \<and> ConvertToConformingVDofs (\<lambda>P dofs. []) False Ordering_Map True (new_SparseMatrix 3 3) (new_SparseMatrix 3 3)
     (FiniteElementSpace_default \<lparr> vdim := 2, ndofs := 3 \<rparr>) [4, 0, 5]
   = Inr ([4, 0, 5], FiniteElementSpace_default \<lparr> vdim := 2, ndofs := 3, cP_is_set := True \<rparr>)"
proof -
  let ?f = "FiniteElementSpace_default \<lparr> vdim := 2, ndofs := 3 \<rparr>"
  have a: "\<not> cP_is_set ?f" by (simp add: FiniteElementSpace_default_def)
  have b: "0 \<le> ndofs ?f" by simp
  have c: "\<forall>i < nat (ndofs ?f). SparseMatrix_RowSize (new_SparseMatrix 3 3) i = 0"
    by (simp add: SparseMatrix_RowSize_def new_SparseMatrix_def)
  have d: "False \<longrightarrow> cP ?f = None" by simp
  have r: "?f \<lparr> cP_is_set := True, cP := None, cR := None, cQ := None \<rparr>
           = FiniteElementSpace_default \<lparr> vdim := 2, ndofs := 3, cP_is_set := True \<rparr>"
    by (simp add: FiniteElementSpace_default_def)
  from all_true_dofs_operators_absent[OF a b c d, of Ordering_Map True "new_SparseMatrix 3 3" "\<lambda>P dofs. []" "[4, 0, 5]"]
  show ?thesis
    by (auto simp: r GetConformingProlongation_def GetConformingRestriction_def
                   ConvertToConformingVDofs_def a)
qed
subsection \<open>Propagation of the order masks\<close>

lemma foldM_Some:
  assumes "P s"
    and "\<And>a x. x \<in> set xs \<Longrightarrow> P a \<Longrightarrow> \<exists>b. f a x = Some b \<and> P b"
  shows "\<exists>s'. foldM f s xs = Some s' \<and> P s'"
  using assms
proof (induction xs arbitrary: s)
  case Nil
  then show ?case by simp
next
  case (Cons x xs)
  from Cons.prems(2)[of x s] Cons.prems(1) obtain t where t: "f s x = Some t" "P t" by auto
  from Cons.IH[OF t(2)] Cons.prems(2) obtain s' where "foldM f t xs = Some s'" "P s'"
    by (metis list.set_intros(2))
  with t show ?case by simp
qed

lemma elem_at_Some: "0 \<le> i \<Longrightarrow> i < int (length xs) \<Longrightarrow> elem_at xs i = Some (xs ! nat i)"
  by (simp add: elem_at_def)

lemma or_into_Some:
  "0 \<le> i \<Longrightarrow> i < int (length xs) \<Longrightarrow>
   \<exists>ys. or_into xs i m = Some ys \<and> length ys = length xs"
  by (simp add: or_into_def)

lemma slaves_nth_ok:
  "\<forall>s \<in> set sl. Q s \<Longrightarrow> 0 \<le> i \<Longrightarrow> i < int (length sl) \<Longrightarrow> Q (sl ! nat i)"
  by simp

lemma edge_slave_orders_Some:
  assumes "master_ok edge_list (length edge_orders) master"
    and "\<forall>s \<in> set (slaves edge_list). 0 \<le> s \<and> s < int (length edge_orders)"
  shows "\<exists>so. edge_slave_orders edge_list edge_orders master = Some so"
proof -
  have "\<exists>so. foldM (\<lambda>slave_orders i. do {
              slave \<leftarrow> elem_at (slaves edge_list) i;
              eo \<leftarrow> elem_at edge_orders slave;
              Some (slave_orders OR eo) })
       0 [slaves_begin master..slaves_end master - 1] = Some so \<and> True"
  proof (rule foldM_Some)
    show True ..
  next
    fix a :: "'a word" and i
    assume i: "i \<in> set [slaves_begin master..slaves_end master - 1]"
    then have r: "0 \<le> i" "i < int (length (slaves edge_list))"
      using assms(1) by (auto simp: master_ok_def)
    then have s: "0 \<le> slaves edge_list ! nat i" "slaves edge_list ! nat i < int (length edge_orders)"
      using slaves_nth_ok[OF assms(2) r] by auto
    show "\<exists>b. do {
              slave \<leftarrow> elem_at (slaves edge_list) i;
              eo \<leftarrow> elem_at edge_orders slave;
              Some (a OR eo) } = Some b \<and> True"
      by (simp add: elem_at_Some[OF r] elem_at_Some[OF s])
  qed
  then show ?thesis by (simp add: edge_slave_orders_def)
qed

lemma edge_master_step_Some:
  assumes "master_ok edge_list (length (fst st)) master"
    and "\<forall>s \<in> set (slaves edge_list). 0 \<le> s \<and> s < int (length (fst st))"
  shows "\<exists>st'. edge_master_step edge_list st master = Some st' \<and> length (fst st') = length (fst st)"
proof -
  from edge_slave_orders_Some[OF assms] obtain so where
    so: "edge_slave_orders edge_list (fst st) master = Some so" ..
  have i: "0 \<le> index master" "index master < int (length (fst st))"
    using assms(1) by (auto simp: master_ok_def)
  show ?thesis
  proof (cases "MinOrder so < MinOrder (fst st ! nat (index master))")
    case True
    then have "edge_master_step edge_list st master
               = Some ((fst st)[nat (index master) :=
                         fst st ! nat (index master) OR push_bit (nat (MinOrder so)) 1], False)"
      using i by (simp add: edge_master_step_def so elem_at_Some[OF i] or_into_def Let_def)
    then show ?thesis by simp
  next
    case False
    then have "edge_master_step edge_list st master = Some st"
      using i by (simp add: edge_master_step_def so elem_at_Some[OF i] Let_def)
    then show ?thesis by simp
  qed
qed

lemma face_slave_orders_Some:
  assumes "master_ok (GetFaceList mesh) (length face_orders) master"
    and "\<forall>s \<in> set (slaves (GetFaceList mesh)). 0 \<le> s \<and> s < int (length face_orders) \<and>
           (\<forall>e \<in> set (GetFaceEdges mesh s). 0 \<le> e \<and> e < int (length edge_orders))"
  shows "\<exists>so. face_slave_orders mesh edge_orders face_orders master = Some so"
proof -
  have "\<exists>so. foldM (\<lambda>slave_orders i. do {
              slave \<leftarrow> elem_at (slaves (GetFaceList mesh)) i;
              fo \<leftarrow> elem_at face_orders slave;
              foldM (\<lambda>so e. do { eo \<leftarrow> elem_at edge_orders e; Some (so OR eo) })
                (slave_orders OR fo) (GetFaceEdges mesh slave) })
       0 [slaves_begin master..slaves_end master - 1] = Some so \<and> True"
  proof (rule foldM_Some)
    show True ..
  next
    fix a :: "'a word" and i
    assume i: "i \<in> set [slaves_begin master..slaves_end master - 1]"
    then have r: "0 \<le> i" "i < int (length (slaves (GetFaceList mesh)))"
      using assms(1) by (auto simp: master_ok_def)
    let ?s = "slaves (GetFaceList mesh) ! nat i"
    have s: "0 \<le> ?s" "?s < int (length face_orders)"
      and e: "\<forall>e \<in> set (GetFaceEdges mesh ?s). 0 \<le> e \<and> e < int (length edge_orders)"
      using slaves_nth_ok[OF assms(2) r] by auto
    have "\<exists>b. foldM (\<lambda>so e. do { eo \<leftarrow> elem_at edge_orders e; Some (so OR eo) })
                (a OR face_orders ! nat ?s) (GetFaceEdges mesh ?s) = Some b \<and> True"
      by (rule foldM_Some) (use e in \<open>auto simp: elem_at_def\<close>)
    then show "\<exists>b. do {
              slave \<leftarrow> elem_at (slaves (GetFaceList mesh)) i;
              fo \<leftarrow> elem_at face_orders slave;
              foldM (\<lambda>so e. do { eo \<leftarrow> elem_at edge_orders e; Some (so OR eo) })
                (a OR fo) (GetFaceEdges mesh slave) } = Some b \<and> True"
      by (simp add: elem_at_Some[OF r] elem_at_Some[OF s])
  qed
  then show ?thesis by (simp add: face_slave_orders_def)
qed

lemma face_master_step_Some:
  assumes "master_ok (GetFaceList mesh) (length (fst st)) master"
    and "\<forall>s \<in> set (slaves (GetFaceList mesh)). 0 \<le> s \<and> s < int (length (fst st)) \<and>
           (\<forall>e \<in> set (GetFaceEdges mesh s). 0 \<le> e \<and> e < int (length edge_orders))"
  shows "\<exists>st'. face_master_step mesh edge_orders st master = Some st' \<and> length (fst st') = length (fst st)"
proof -
  from face_slave_orders_Some[OF assms] obtain so where
    so: "face_slave_orders mesh edge_orders (fst st) master = Some so" ..
  have i: "0 \<le> index master" "index master < int (length (fst st))"
    using assms(1) by (auto simp: master_ok_def)
  show ?thesis
  proof (cases "MinOrder so < MinOrder (fst st ! nat (index master))")
    case True
    then have "face_master_step mesh edge_orders st master
               = Some ((fst st)[nat (index master) :=
                         fst st ! nat (index master) OR push_bit (nat (MinOrder so)) 1], False)"
      using i by (simp add: face_master_step_def so elem_at_Some[OF i] or_into_def Let_def)
    then show ?thesis by simp
  next
    case False
    then have "face_master_step mesh edge_orders st master = Some st"
      using i by (simp add: face_master_step_def so elem_at_Some[OF i] Let_def)
    then show ?thesis by simp
  qed
qed

lemma faces_to_edges_Some:
  assumes "GetNFaces mesh \<le> int (length face_orders)"
    and "\<forall>i \<in> set [0..GetNFaces mesh - 1]. \<forall>e \<in> set (GetFaceEdges mesh i).
            0 \<le> e \<and> e < int (length edge_orders)"
  shows "\<exists>eo'. faces_to_edges mesh face_orders edge_orders = Some eo'"
proof -
  have "\<exists>eo'. foldM (\<lambda>eo i. foldM (\<lambda>eo e. do { fo \<leftarrow> elem_at face_orders i; or_into eo e fo })
                      eo (GetFaceEdges mesh i))
       edge_orders [0..GetNFaces mesh - 1] = Some eo' \<and> length eo' = length edge_orders"
  proof (rule foldM_Some)
    show "length edge_orders = length edge_orders" ..
  next
    fix a :: "'a word list" and i
    assume i: "i \<in> set [0..GetNFaces mesh - 1]" and la: "length a = length edge_orders"
    then have r: "0 \<le> i" "i < int (length face_orders)" using assms(1) by auto
    have e: "\<forall>e \<in> set (GetFaceEdges mesh i). 0 \<le> e \<and> e < int (length edge_orders)"
      using assms(2) i by blast
    show "\<exists>b. foldM (\<lambda>eo e. do { fo \<leftarrow> elem_at face_orders i; or_into eo e fo })
                  a (GetFaceEdges mesh i) = Some b \<and> length b = length edge_orders"
      by (rule foldM_Some) (use e la in \<open>auto simp: elem_at_Some[OF r] or_into_def\<close>)
  qed
  then show ?thesis by (auto simp: faces_to_edges_def)
qed

lemma propagate_pass_Some:
  assumes "mesh_ok mesh (length (fst st)) (length (snd st))"
  shows "\<exists>st' done. propagate_pass mesh st = Some (st', done)"
proof -
  let ?ne = "length (fst st)" and ?nf = "length (snd st)"
  have "\<exists>es. foldM (edge_master_step (GetEdgeList mesh)) (fst st, True) (masters (GetEdgeList mesh))
              = Some es \<and> length (fst es) = ?ne"
  proof (rule foldM_Some)
    show "length (fst (fst st, True)) = ?ne" by simp
  next
    fix a :: "'a word list \<times> bool" and m
    assume m: "m \<in> set (masters (GetEdgeList mesh))" and la: "length (fst a) = ?ne"
    have 1: "master_ok (GetEdgeList mesh) (length (fst a)) m"
      using assms m la by (simp add: mesh_ok_def)
    have 2: "\<forall>s \<in> set (slaves (GetEdgeList mesh)). 0 \<le> s \<and> s < int (length (fst a))"
      using assms la by (simp add: mesh_ok_def)
    from edge_master_step_Some[OF 1 2] la
    show "\<exists>b. edge_master_step (GetEdgeList mesh) a m = Some b \<and> length (fst b) = ?ne" by auto
  qed
  then obtain es where es:
    "foldM (edge_master_step (GetEdgeList mesh)) (fst st, True) (masters (GetEdgeList mesh)) = Some es"
    "length (fst es) = ?ne" by auto
  have "\<exists>fs. foldM (face_master_step mesh (fst es)) (snd st, snd es) (masters (GetFaceList mesh))
              = Some fs \<and> length (fst fs) = ?nf"
  proof (rule foldM_Some)
    show "length (fst (snd st, snd es)) = ?nf" by simp
  next
    fix a :: "'a word list \<times> bool" and m
    assume m: "m \<in> set (masters (GetFaceList mesh))" and la: "length (fst a) = ?nf"
    have 1: "master_ok (GetFaceList mesh) (length (fst a)) m"
      using assms m la by (simp add: mesh_ok_def)
    have 2: "\<forall>s \<in> set (slaves (GetFaceList mesh)). 0 \<le> s \<and> s < int (length (fst a)) \<and>
           (\<forall>e \<in> set (GetFaceEdges mesh s). 0 \<le> e \<and> e < int (length (fst es)))"
      using assms la es(2) by (simp add: mesh_ok_def)
    from face_master_step_Some[OF 1 2] la
    show "\<exists>b. face_master_step mesh (fst es) a m = Some b \<and> length (fst b) = ?nf" by auto
  qed
  then obtain fs where fs:
    "foldM (face_master_step mesh (fst es)) (snd st, snd es) (masters (GetFaceList mesh)) = Some fs"
    "length (fst fs) = ?nf" by auto
  have "\<exists>eo'. faces_to_edges mesh (fst fs) (fst es) = Some eo'"
    by (rule faces_to_edges_Some) (use assms fs(2) es(2) in \<open>auto simp: mesh_ok_def\<close>)
  then obtain eo' where "faces_to_edges mesh (fst fs) (fst es) = Some eo'" ..
  with es fs show ?thesis by (simp add: propagate_pass_def)
qed

lemma propagate_Some:
  "mesh_ok mesh (length (fst st)) (length (snd st)) \<Longrightarrow>
   \<exists>r. propagate mesh st = Some r \<and> masks_le (fst st) (fst r) \<and> masks_le (snd st) (snd r)"
proof (induction mesh st rule: propagate.induct)
  case (1 mesh st)
  from propagate_pass_Some[OF "1.prems"] obtain st' d where
    p: "propagate_pass mesh st = Some (st', d)" by auto
  note le = propagate_pass_props(1,2)[OF p]
  show ?case
  proof (cases d)
    case True
    then have "propagate mesh st = Some st'" using p by (subst propagate.simps) simp
    with le show ?thesis by simp
  next
    case False
    then have r: "propagate mesh st = propagate mesh st'" using p by (subst propagate.simps) simp
    have ok: "mesh_ok mesh (length (fst st')) (length (snd st'))"
      using "1.prems" le by (simp add: masks_le_length)
    from "1.IH"[OF p refl False ok] obtain r' where
      "propagate mesh st' = Some r'" "masks_le (fst st') (fst r')" "masks_le (snd st') (snd r')"
      by auto
    with le r show ?thesis by (auto intro: masks_le_trans)
  qed
qed


lemma or_all_Some:
  assumes "\<forall>e \<in> set es. 0 \<le> e \<and> e < int (length xs)"
  shows "\<exists>ys. foldM (\<lambda>eo e. or_into eo e m) xs es = Some ys \<and> length ys = length xs"
  by (rule foldM_Some) (use assms in \<open>auto simp: or_into_def\<close>)

lemma element_masks_Some:
  fixes st :: "'a::len word list \<times> 'a word list"
  assumes "elements_ok mesh orders (int LENGTH('a) - 1)"
    and "i \<in> set [0..GetNE mesh - 1]"
    and "int (length (fst st)) = GetNEdges mesh" "int (length (snd st)) = GetNFaces mesh"
  shows "\<exists>st'. element_masks mesh orders st i = Some st' \<and>
              length (fst st') = length (fst st) \<and> length (snd st') = length (snd st)"
proof -
  have ne: "GetNE mesh \<le> int (length orders)"
    using assms(1) unfolding elements_ok_def by (rule conjunct1)
  have "\<forall>i \<in> set [0..GetNE mesh - 1].
        0 \<le> orders ! nat i \<and> orders ! nat i \<le> int LENGTH('a) - 1 \<and>
        (\<forall>e \<in> set (GetElementEdges mesh i). 0 \<le> e \<and> e < GetNEdges mesh) \<and>
        (\<forall>f \<in> set (GetElementFaces mesh i). 2 < Dimension mesh \<longrightarrow> 0 \<le> f \<and> f < GetNFaces mesh)"
    using assms(1) unfolding elements_ok_def by (rule conjunct2)
  with assms(2) have el:
    "0 \<le> orders ! nat i \<and> orders ! nat i \<le> int LENGTH('a) - 1 \<and>
        (\<forall>e \<in> set (GetElementEdges mesh i). 0 \<le> e \<and> e < GetNEdges mesh) \<and>
        (\<forall>f \<in> set (GetElementFaces mesh i). 2 < Dimension mesh \<longrightarrow> 0 \<le> f \<and> f < GetNFaces mesh)"
    by (rule bspec[rotated])
  have r: "0 \<le> i" "i < int (length orders)" using assms(2) ne by simp_all
  have o: "\<not> (orders ! nat i < 0 \<or> orders ! nat i > int LENGTH('a) - 1)"
    using el by linarith
  define msk :: "'a word" where "msk = push_bit (nat (orders ! nat i)) 1"
  have "\<forall>e \<in> set (GetElementEdges mesh i). 0 \<le> e \<and> e < int (length (fst st))"
    using el assms(3) by simp
  from or_all_Some[OF this, of msk] obtain eo where
    eo: "foldM (\<lambda>eo e. or_into eo e msk) (fst st) (GetElementEdges mesh i) = Some eo"
        "length eo = length (fst st)" by blast
  have unfold: "element_masks mesh orders st i =
      do { edge_orders \<leftarrow> foldM (\<lambda>eo e. or_into eo e msk) (fst st) (GetElementEdges mesh i);
           face_orders \<leftarrow>
             (if Dimension mesh > 2
              then foldM (\<lambda>fo f. or_into fo f msk) (snd st) (GetElementFaces mesh i)
              else Some (snd st));
           Some (edge_orders, face_orders) }"
    unfolding element_masks_def elem_at_Some[OF r] msk_def Let_def
    using o by (simp only: bind.bind_lunit if_False)
  show ?thesis
  proof (cases "2 < Dimension mesh")
    case True
    then have "\<forall>f \<in> set (GetElementFaces mesh i). 0 \<le> f \<and> f < int (length (snd st))"
      using el assms(4) by simp
    from or_all_Some[OF this, of msk] obtain fo where
      fo: "foldM (\<lambda>fo f. or_into fo f msk) (snd st) (GetElementFaces mesh i) = Some fo"
          "length fo = length (snd st)" by blast
    have "element_masks mesh orders st i = Some (eo, fo)"
      unfolding unfold eo(1) using True fo(1) by simp
    with eo(2) fo(2) show ?thesis by simp
  next
    case False
    have "element_masks mesh orders st i = Some (eo, snd st)"
      unfolding unfold eo(1) using False by simp
    with eo(2) show ?thesis by simp
  qed
qed

lemma CalcEdgeFaceVarOrders_Some:
  assumes "mesh_ok mesh (nat (GetNEdges mesh)) (nat (GetNFaces mesh))"
    and "elements_ok mesh (elem_order fes) (int LENGTH('a) - 1)"
    and "0 \<le> GetNEdges mesh" "0 \<le> GetNFaces mesh"
  shows "\<exists>r :: 'a::len word list \<times> 'a word list. CalcEdgeFaceVarOrders mesh fes = Some r"
proof -
  let ?s0 = "(replicate (nat (GetNEdges mesh)) 0, replicate (nat (GetNFaces mesh)) 0)
             :: 'a word list \<times> 'a word list"
  have "\<exists>st. foldM (element_masks mesh (elem_order fes)) ?s0 [0..GetNE mesh - 1] = Some st \<and>
          (int (length (fst st)) = GetNEdges mesh \<and> int (length (snd st)) = GetNFaces mesh)"
  proof (rule foldM_Some)
    show "int (length (fst ?s0)) = GetNEdges mesh \<and> int (length (snd ?s0)) = GetNFaces mesh"
      using assms(3,4) by simp
  next
    fix a :: "'a word list \<times> 'a word list" and i
    assume i: "i \<in> set [0..GetNE mesh - 1]"
      and a: "int (length (fst a)) = GetNEdges mesh \<and> int (length (snd a)) = GetNFaces mesh"
    from element_masks_Some[OF assms(2) i, of a] a
    show "\<exists>b. element_masks mesh (elem_order fes) a i = Some b \<and>
             (int (length (fst b)) = GetNEdges mesh \<and> int (length (snd b)) = GetNFaces mesh)"
      by auto
  qed
  then obtain st where st:
    "foldM (element_masks mesh (elem_order fes)) ?s0 [0..GetNE mesh - 1] = Some st"
    "int (length (fst st)) = GetNEdges mesh" "int (length (snd st)) = GetNFaces mesh" by auto
  have "nat (GetNEdges mesh) = length (fst st)" "nat (GetNFaces mesh) = length (snd st)"
    using st(2,3) by auto
  with assms(1) have "mesh_ok mesh (length (fst st)) (length (snd st))" by simp
  from propagate_Some[OF this] obtain r where "propagate mesh st = Some r" by auto
  with st(1) show ?thesis by (simp add: CalcEdgeFaceVarOrders_def)
qed

lemma gap_le: "gap (w :: 'a::len word) \<le> 2 ^ LENGTH('a) - 1"
  by (simp add: gap_def)

lemma weight_le: "weight (xs :: 'a::len word list) \<le> length xs * (2 ^ LENGTH('a) - 1)"
proof (induction xs)
  case Nil
  show ?case by (simp add: weight_def)
next
  case (Cons x xs)
  have "weight (x # xs) = gap x + weight xs" by (simp add: weight_def)
  also have "\<dots> \<le> (2 ^ LENGTH('a) - 1) + length xs * (2 ^ LENGTH('a) - 1)"
    using gap_le[of x] Cons.IH by (rule add_mono)
  finally show ?case by (simp only: length_Cons mult_Suc)
qed

text \<open>
  C4: the propagation loop terminates (\<open>propagate\<close> is a total function). In every pass the
  masks only grow; a pass that changes no mask sets \<open>done\<close> and ends the loop, and a pass
  that does not end the loop has changed a mask, so that the measure, which is bounded
  by the number of masks times the full mask, is strictly smaller. On a mesh whose
  indices are inside the arrays the loop, and the whole function, return a result.
\<close>

theorem order_propagation_terminates:
  fixes st st' :: "'a::len word list \<times> 'a word list"
  shows
  "(propagate_pass mesh st = Some (st', done) \<longrightarrow>
      masks_le (fst st) (fst st') \<and> masks_le (snd st) (snd st') \<and>
      (st' = st \<longrightarrow> done) \<and>
      (\<not> done \<longrightarrow> st' \<noteq> st \<and> pair_weight st' < pair_weight st))
   \<and> pair_weight st \<le> (length (fst st) + length (snd st)) * (2 ^ LENGTH('a) - 1)
   \<and> (mesh_ok mesh (length (fst st)) (length (snd st)) \<longrightarrow>
        (\<exists>r. propagate mesh st = Some r \<and> masks_le (fst st) (fst r) \<and> masks_le (snd st) (snd r)))
   \<and> (mesh_ok mesh (nat (GetNEdges mesh)) (nat (GetNFaces mesh)) \<and>
       elements_ok mesh (elem_order fes) (int LENGTH('a) - 1) \<and>
       0 \<le> GetNEdges mesh \<and> 0 \<le> GetNFaces mesh \<longrightarrow>
        (\<exists>r :: 'a word list \<times> 'a word list. CalcEdgeFaceVarOrders mesh fes = Some r))"
proof (intro conjI impI)
  assume p: "propagate_pass mesh st = Some (st', done)"
  show "masks_le (fst st) (fst st')" "masks_le (snd st) (snd st')"
    using propagate_pass_props(1,2)[OF p] by simp_all
  show "done" if "st' = st" using propagate_pass_props(3)[OF p that] .
  show "st' \<noteq> st" "pair_weight st' < pair_weight st" if "\<not> done"
    using propagate_pass_props(4)[OF p that] by simp_all
next
  show "pair_weight st \<le> (length (fst st) + length (snd st)) * (2 ^ LENGTH('a) - 1)"
    using add_mono[OF weight_le[of "fst st"] weight_le[of "snd st"]]
    by (simp only: pair_weight_def add_mult_distrib)
next
  assume "mesh_ok mesh (length (fst st)) (length (snd st))"
  then show "\<exists>r. propagate mesh st = Some r \<and> masks_le (fst st) (fst r) \<and> masks_le (snd st) (snd r)"
    by (rule propagate_Some)
next
  assume "mesh_ok mesh (nat (GetNEdges mesh)) (nat (GetNFaces mesh)) \<and>
       elements_ok mesh (elem_order fes) (int LENGTH('a) - 1) \<and>
       0 \<le> GetNEdges mesh \<and> 0 \<le> GetNFaces mesh"
  then show "\<exists>r :: 'a word list \<times> 'a word list. CalcEdgeFaceVarOrders mesh fes = Some r"
    using CalcEdgeFaceVarOrders_Some[of mesh fes] by blast
qed

theorem order_propagation_terminates_witness:
  "propagate_pass example_mesh ([4, 2, 8 :: 8 word], []) = Some (([6, 2, 8], []), False)
   \<and> masks_le [4, 2, 8 :: 8 word] [6, 2, 8]
   \<and> pair_weight ([6, 2, 8 :: 8 word], [] :: 8 word list) < pair_weight ([4, 2, 8 :: 8 word], [] :: 8 word list)
   \<and> propagate_pass example_mesh ([6, 2, 8 :: 8 word], []) = Some (([6, 2, 8], []), True)
   \<and> propagate example_mesh ([4, 2, 8 :: 8 word], []) = Some ([6, 2, 8], [])
   \<and> (CalcEdgeFaceVarOrders example_mesh (FiniteElementSpace_default \<lparr> elem_order := [2, 1, 3] \<rparr>)
        :: (8 word list \<times> 8 word list) option) = Some ([6, 2, 8], [])"
proof -
  have p1: "propagate_pass example_mesh ([4, 2, 8 :: 8 word], []) = Some (([6, 2, 8], []), False)"
    by code_simp
  have p2: "propagate_pass example_mesh ([6, 2, 8 :: 8 word], []) = Some (([6, 2, 8], []), True)"
    by code_simp
  have p3: "propagate example_mesh ([4, 2, 8 :: 8 word], []) = Some ([6, 2, 8], [])"
    by code_simp
  have p4: "(CalcEdgeFaceVarOrders example_mesh (FiniteElementSpace_default \<lparr> elem_order := [2, 1, 3] \<rparr>)
        :: (8 word list \<times> 8 word list) option) = Some ([6, 2, 8], [])"
    by code_simp
  from order_propagation_terminates
         [of example_mesh "([4, 2, 8 :: 8 word], [])" "([6, 2, 8], [])" False FiniteElementSpace_default]
       p1
  have "masks_le [4, 2, 8 :: 8 word] [6, 2, 8]"
    and "pair_weight ([6, 2, 8 :: 8 word], [] :: 8 word list) < pair_weight ([4, 2, 8 :: 8 word], [] :: 8 word list)"
    by simp_all
  with p1 p2 p3 p4 show ?thesis by simp
qed

subsection \<open>Variants of edges and faces\<close>



















end
